theory Spec2Isabelle
  imports Main "HOL-Library.Word"
begin

unbundle bit_operations_syntax

section \<open>Data model\<close>

text \<open>
  The program is built for a 64-bit MinGW target: \<open>unsigned char\<close> is 8 bits,
  \<open>unsigned short\<close> 16 bits and \<open>unsigned int\<close> 32 bits. The \<open>int\<close> status
  codes are only compared, never computed with, and are modelled as \<open>int\<close>.
  A pointer is a natural number, \<open>0\<close> being \<open>NULL\<close>.
\<close>

type_synonym byte = "8 word"
type_synonym ptr = nat

text \<open>The arguments of one \<open>libusb_control_transfer\<close> call, the device handle apart.
  \<open>payload\<close> holds the bytes a host-to-device transfer sends; it is empty for a
  device-to-host transfer.\<close>

record ctrl_req =
  bmRequestType :: byte
  bRequest :: byte
  wValue :: "16 word"
  wIndex :: "16 word"
  payload :: "byte list"
  wLength :: "16 word"
  timeout :: "32 word"

text \<open>\<open>struct snx_device\<close> of \<open>sonix_burn.exe.h\<close>.\<close>

record snx_device =
  ctx :: ptr
  handle :: ptr
  vc_interface :: byte
  xu_id :: byte

definition XU_CMD_SPI_READ_SET :: byte where "XU_CMD_SPI_READ_SET = 0x23"
definition XU_CMD_SPI_READ_GET :: byte where "XU_CMD_SPI_READ_GET = 0x24"
definition XU_CMD_SPI_WRITE_SET :: byte where "XU_CMD_SPI_WRITE_SET = 0x25"
definition XU_CMD_SPI_WRITE_DATA :: byte where "XU_CMD_SPI_WRITE_DATA = 0x26"

section \<open>The world outside the program\<close>

text \<open>
  Every call the program makes into libusb or the C library is recorded, in order and
  with the value it returned, as an event of the trace.
\<close>

datatype event =
    LibusbInit int
  | LibusbOpen ptr "16 word" "16 word" ptr
  | LibusbClaim ptr byte int
  | LibusbRelease ptr byte int
  | LibusbClose ptr
  | LibusbExit ptr
  | ControlTransfer ptr ctrl_req int
  | Malloc nat bool
  | Free
  | Fopen string bool
  | Fwrite "byte list" nat
  | Fclose
  | Stdout string
  | Stderr string

text \<open>
  The state of the world: the trace, the libusb resources that are alive (contexts,
  open device handles, claimed interfaces) and the contents of the files.
\<close>

record world =
  trace :: "event list"
  ctxs :: "ptr set"
  handles :: "ptr set"
  claimed :: "(ptr \<times> byte) set"
  files :: "string \<Rightarrow> byte list option"

text \<open>
  What the outside answers is not decided by the program. It is a parameter: each
  answer is a function of the trace so far and of the arguments of the call, which
  covers every deterministic device, USB stack, allocator and file system.
\<close>

record env =
  usb_init :: "event list \<Rightarrow> int \<times> nat"
  usb_open :: "event list \<Rightarrow> ptr \<Rightarrow> 16 word \<Rightarrow> 16 word \<Rightarrow> ptr"
  usb_claim :: "event list \<Rightarrow> ptr \<Rightarrow> byte \<Rightarrow> int"
  usb_release :: "event list \<Rightarrow> ptr \<Rightarrow> byte \<Rightarrow> int"
  usb_xfer :: "event list \<Rightarrow> ptr \<Rightarrow> ctrl_req \<Rightarrow> int \<times> byte list"
  mem_alloc :: "event list \<Rightarrow> nat \<Rightarrow> byte list option"
  file_open :: "event list \<Rightarrow> string \<Rightarrow> bool"
  file_write :: "event list \<Rightarrow> nat \<Rightarrow> nat"

definition emit :: "event \<Rightarrow> world \<Rightarrow> world" where
  "emit e w = w\<lparr>trace := trace w @ [e]\<rparr>"

subsection \<open>libusb, by its documented contract\<close>

text \<open>\<open>libusb_init(&c)\<close>: on success (0) a new, non-null context is stored in \<open>c\<close>
  and is alive; on failure \<open>c\<close> keeps the value \<open>cur\<close> it had.\<close>

definition libusb_init :: "env \<Rightarrow> ptr \<Rightarrow> world \<Rightarrow> int \<times> ptr \<times> world" where
  "libusb_init E cur w =
     (case usb_init E (trace w) of (rc, n) \<Rightarrow>
        if rc = 0 then (0, Suc n, (emit (LibusbInit 0) w)\<lparr>ctxs := insert (Suc n) (ctxs w)\<rparr>)
        else (rc, cur, emit (LibusbInit rc) w))"

text \<open>\<open>libusb_open_device_with_vid_pid\<close>: a handle, or \<open>NULL\<close>.\<close>

definition libusb_open_device_with_vid_pid ::
  "env \<Rightarrow> ptr \<Rightarrow> 16 word \<Rightarrow> 16 word \<Rightarrow> world \<Rightarrow> ptr \<times> world" where
  "libusb_open_device_with_vid_pid E c vid pid w =
     (let h = usb_open E (trace w) c vid pid;
          w' = emit (LibusbOpen c vid pid h) w
      in if h \<noteq> 0 then (h, w'\<lparr>handles := insert h (handles w)\<rparr>) else (h, w'))"

definition libusb_claim_interface :: "env \<Rightarrow> ptr \<Rightarrow> byte \<Rightarrow> world \<Rightarrow> int \<times> world" where
  "libusb_claim_interface E h i w =
     (let rc = usb_claim E (trace w) h i;
          w' = emit (LibusbClaim h i rc) w
      in if rc = 0 then (rc, w'\<lparr>claimed := insert (h, i) (claimed w)\<rparr>) else (rc, w'))"

definition libusb_release_interface :: "env \<Rightarrow> ptr \<Rightarrow> byte \<Rightarrow> world \<Rightarrow> int \<times> world" where
  "libusb_release_interface E h i w =
     (let rc = usb_release E (trace w) h i;
          w' = emit (LibusbRelease h i rc) w
      in if rc = 0 then (rc, w'\<lparr>claimed := claimed w - {(h, i)}\<rparr>) else (rc, w'))"

definition libusb_close :: "ptr \<Rightarrow> world \<Rightarrow> world" where
  "libusb_close h w =
     (emit (LibusbClose h) w)\<lparr>handles := handles w - {h},
                              claimed := {c \<in> claimed w. fst c \<noteq> h}\<rparr>"

definition libusb_exit :: "ptr \<Rightarrow> world \<Rightarrow> world" where
  "libusb_exit c w = (emit (LibusbExit c) w)\<lparr>ctxs := ctxs w - {c}\<rparr>"

text \<open>\<open>libusb_control_transfer\<close>: the status the stack returns and the bytes it stored
  in the caller's buffer, never more than \<open>wLength\<close> of them.\<close>

definition libusb_control_transfer ::
  "env \<Rightarrow> ptr \<Rightarrow> byte \<Rightarrow> byte \<Rightarrow> 16 word \<Rightarrow> 16 word \<Rightarrow> byte list \<Rightarrow> 16 word \<Rightarrow> 32 word
     \<Rightarrow> world \<Rightarrow> int \<times> byte list \<times> world" where
  "libusb_control_transfer E h rt rq v i buf len tmo w =
     (let req = \<lparr>bmRequestType = rt, bRequest = rq, wValue = v, wIndex = i,
                 payload = (if rt AND 0x80 = 0 then take (unat len) buf else []),
                 wLength = len, timeout = tmo\<rparr>
      in case usb_xfer E (trace w) h req of (rc, rx) \<Rightarrow>
           (rc, take (unat len) rx, emit (ControlTransfer h req rc) w))"

section \<open>The transport\<close>

text \<open>\<open>snx_xu_set\<close>: \<open>cs\<close>, \<open>xu_id\<close> and \<open>vc_if\<close> are promoted to \<open>int\<close>, shifted,
  and the result is converted to \<open>unsigned short\<close>.\<close>

definition snx_xu_set ::
  "env \<Rightarrow> ptr \<Rightarrow> byte \<Rightarrow> byte \<Rightarrow> byte \<Rightarrow> byte list \<Rightarrow> 16 word \<Rightarrow> world \<Rightarrow> int \<times> world" where
  "snx_xu_set E h vc_if xu cs pl len w =
     (let v = push_bit 8 (ucast cs :: 16 word);
          i = push_bit 8 (ucast xu :: 16 word) OR ucast vc_if
      in case libusb_control_transfer E h 0x21 0x01 v i pl len 3000 w of
           (r, rx, w') \<Rightarrow> (r, w'))"

definition snx_xu_get ::
  "env \<Rightarrow> ptr \<Rightarrow> byte \<Rightarrow> byte \<Rightarrow> byte \<Rightarrow> 16 word \<Rightarrow> world \<Rightarrow> int \<times> byte list \<times> world" where
  "snx_xu_get E h vc_if xu cs len w =
     (let v = push_bit 8 (ucast cs :: 16 word);
          i = push_bit 8 (ucast xu :: 16 word) OR ucast vc_if
      in libusb_control_transfer E h 0xA1 0x81 v i [] len 3000 w)"

text \<open>The bytes a transfer stored at offset \<open>p\<close> of the caller's buffer. The caller
  owns at least \<open>length\<close> bytes from \<open>out\<close>, so a store never leaves the buffer.\<close>

definition store :: "byte list \<Rightarrow> nat \<Rightarrow> byte list \<Rightarrow> byte list" where
  "store buf p rx = take p buf @ take (length buf - p) rx @ drop (p + length rx) buf"

text \<open>The chunk length and the payload array of \<open>snx_sf_read\<close>: the value of
  \<open>remaining > 1023 ? 1023 : remaining\<close> converted to \<open>unsigned short\<close>, and the five
  initialisers of \<open>payload\<close>.\<close>

definition read_chunk :: "32 word \<Rightarrow> 16 word" where
  "read_chunk remaining = (if remaining > 1023 then 1023 else ucast remaining)"

definition read_set_payload :: "32 word \<Rightarrow> 16 word \<Rightarrow> byte list" where
  "read_set_payload addr chunk =
     [ucast (drop_bit 16 addr AND 0xFF), ucast (drop_bit 8 addr AND 0xFF), ucast (addr AND 0xFF),
      ucast (drop_bit 8 chunk AND 0xFF), ucast (chunk AND 0xFF)]"

text \<open>The \<open>while (remaining)\<close> loop of \<open>snx_sf_read\<close>; \<open>p\<close> is the offset of the
  write pointer from \<open>out\<close>, and \<open>sizeof(payload)\<close> is 5.\<close>

function snx_sf_read_loop ::
  "env \<Rightarrow> snx_device \<Rightarrow> 32 word \<Rightarrow> 32 word \<Rightarrow> nat \<Rightarrow> byte list \<Rightarrow> world
     \<Rightarrow> int \<times> byte list \<times> world" where
  "snx_sf_read_loop E dev addr remaining p out w =
     (if remaining \<noteq> 0 then
        (let chunk = read_chunk remaining
         in case snx_xu_set E (handle dev) (vc_interface dev) (xu_id dev) XU_CMD_SPI_READ_SET
                   (read_set_payload addr chunk) 5 w of
              (r, w1) \<Rightarrow>
                if r < 0 then (r, out, w1)
                else (case snx_xu_get E (handle dev) (vc_interface dev) (xu_id dev)
                             XU_CMD_SPI_READ_GET chunk w1 of
                        (r', rx, w2) \<Rightarrow>
                          if r' < 0 \<or> r' \<noteq> uint chunk
                          then (if r' < 0 then r' else - 1, store out p rx, w2)
                          else snx_sf_read_loop E dev (addr + ucast chunk)
                                 (remaining - ucast chunk) (p + unat chunk) (store out p rx) w2))
      else (0, out, w))"
  by pat_completeness auto
termination
proof (relation "measure (\<lambda>(E, dev, addr, remaining, p, out, w). unat remaining)", goal_cases)
  case 1
  show ?case by simp
next
  case (2 E dev addr remaining p out w chunk)
  have up: "unat (ucast c :: 32 word) = unat c" for c :: "16 word"
  proof -
    have "uint (ucast c :: 32 word) = uint c"
      by (simp add: uint_up_ucast is_up)
    then show ?thesis
      unfolding unat_eq_nat_uint by simp
  qed
  have "unat (remaining - ucast chunk) < unat remaining"
  proof (cases "1023 < remaining")
    case True
    then have "unat (remaining - 1023) = unat remaining - 1023"
      by (simp add: unat_sub word_less_nat_alt word_le_nat_alt)
    moreover have "1023 < unat remaining"
      using True by (simp add: word_less_nat_alt)
    ultimately show ?thesis
      using True 2 by (simp add: read_chunk_def)
  next
    case False
    then have small: "unat remaining \<le> 1023"
      by (simp add: word_less_nat_alt)
    then have "unat (ucast remaining :: 16 word) = unat remaining"
      by (simp add: unsigned_ucast_eq take_bit_nat_eq_self)
    then have "(ucast (ucast remaining :: 16 word) :: 32 word) = remaining"
      by (simp add: word_unat_eq_iff up)
    moreover have "0 < unat remaining"
      using 2 by (simp add: unat_gt_0)
    ultimately show ?thesis
      using False 2 by (simp add: read_chunk_def)
  qed
  then show ?case by simp
qed

declare snx_sf_read_loop.simps [simp del]

text \<open>\<open>snx_sf_read\<close>: \<open>remaining = length\<close> and \<open>p = out\<close> on entry.\<close>

definition snx_sf_read ::
  "env \<Rightarrow> snx_device \<Rightarrow> 32 word \<Rightarrow> 32 word \<Rightarrow> byte list \<Rightarrow> world \<Rightarrow> int \<times> byte list \<times> world" where
  "snx_sf_read E dev addr len out w = snx_sf_read_loop E dev addr len 0 out w"

section \<open>The device session\<close>

text \<open>\<open>memset(dev, 0, sizeof(*dev))\<close>.\<close>

definition zero_device :: snx_device where
  "zero_device = \<lparr>ctx = 0, handle = 0, vc_interface = 0, xu_id = 0\<rparr>"

text \<open>\<open>snx_open\<close>. The status of \<open>libusb_claim_interface\<close> is not looked at.\<close>

definition snx_open ::
  "env \<Rightarrow> snx_device \<Rightarrow> 16 word \<Rightarrow> 16 word \<Rightarrow> byte \<Rightarrow> byte \<Rightarrow> world
     \<Rightarrow> int \<times> snx_device \<times> world" where
  "snx_open E dev vid pid vc_if xu w =
     (let dev0 = zero_device
      in case libusb_init E (ctx dev0) w of
           (rc, c, w1) \<Rightarrow>
             let dev1 = dev0\<lparr>ctx := c\<rparr>
             in if rc \<noteq> 0 then (- 1, dev1, w1)
                else (case libusb_open_device_with_vid_pid E (ctx dev1) vid pid w1 of
                        (h, w2) \<Rightarrow>
                          let dev2 = dev1\<lparr>handle := h\<rparr>
                          in if handle dev2 = 0 then (- 1, dev2, libusb_exit (ctx dev2) w2)
                             else (let dev3 = dev2\<lparr>vc_interface := vc_if, xu_id := xu\<rparr>
                                   in case libusb_claim_interface E (handle dev3) vc_if w2 of
                                        (cl, w3) \<Rightarrow> (0, dev3, w3))))"

text \<open>\<open>snx_close\<close>. The status of \<open>libusb_release_interface\<close> is not looked at.\<close>

definition snx_close :: "env \<Rightarrow> snx_device \<Rightarrow> world \<Rightarrow> snx_device \<times> world" where
  "snx_close E dev w =
     (let w1 = (if handle dev \<noteq> 0
                then libusb_close (handle dev)
                       (snd (libusb_release_interface E (handle dev) (vc_interface dev) w))
                else w);
          w2 = (if ctx dev \<noteq> 0 then libusb_exit (ctx dev) w1 else w1)
      in (zero_device, w2))"

section \<open>The dump operation\<close>

subsection \<open>The C library\<close>

text \<open>\<open>malloc(n)\<close>: \<open>NULL\<close>, or a block of \<open>n\<close> bytes with whatever contents.\<close>

definition malloc :: "env \<Rightarrow> nat \<Rightarrow> world \<Rightarrow> byte list option \<times> world" where
  "malloc E n w =
     (case mem_alloc E (trace w) n of
        None \<Rightarrow> (None, emit (Malloc n False) w)
      | Some bs \<Rightarrow> (Some (take n (bs @ replicate n 0)), emit (Malloc n True) w))"

definition free :: "world \<Rightarrow> world" where
  "free w = emit Free w"

text \<open>\<open>fopen(path, "wb")\<close>: on success the file exists and is empty. The stream is
  identified with its path.\<close>

definition fopen_wb :: "env \<Rightarrow> string \<Rightarrow> world \<Rightarrow> bool \<times> world" where
  "fopen_wb E path w =
     (if file_open E (trace w) path
      then (True, (emit (Fopen path True) w)\<lparr>files := (files w)(path \<mapsto> [])\<rparr>)
      else (False, emit (Fopen path False) w))"

text \<open>\<open>fwrite(buf, 1, n, f)\<close>: the stream takes the first \<open>k \<le> n\<close> bytes and
  returns \<open>k\<close>; \<open>k < n\<close> is a write error.\<close>

definition fwrite :: "env \<Rightarrow> string \<Rightarrow> byte list \<Rightarrow> world \<Rightarrow> nat \<times> world" where
  "fwrite E path bs w =
     (let k = min (file_write E (trace w) (length bs)) (length bs);
          old = (case files w path of None \<Rightarrow> [] | Some c \<Rightarrow> c)
      in (k, (emit (Fwrite bs k) w)\<lparr>files := (files w)(path \<mapsto> old @ take k bs)\<rparr>))"

definition fclose :: "world \<Rightarrow> world" where
  "fclose w = emit Fclose w"

subsection \<open>\<open>snx_dump_firmware\<close>\<close>

text \<open>The values of \<open>fwrite\<close> and \<open>fclose\<close> are not looked at.\<close>

definition snx_dump_firmware ::
  "env \<Rightarrow> snx_device \<Rightarrow> 32 word \<Rightarrow> 32 word \<Rightarrow> string \<Rightarrow> world \<Rightarrow> int \<times> world" where
  "snx_dump_firmware E dev addr len path w =
     (case malloc E (unat len) w of
        (None, w0) \<Rightarrow> (- 1, w0)
      | (Some buf, w0) \<Rightarrow>
          (case snx_sf_read E dev addr len buf w0 of
             (r, buf', w1) \<Rightarrow>
               (case (if r = 0
                      then (case fopen_wb E path w1 of
                              (True, w2) \<Rightarrow>
                                (r, fclose (snd (fwrite E path (take (unat len) buf') w2)))
                            | (False, w2) \<Rightarrow> (- 1, w2))
                      else (r, w1)) of
                  (r', w3) \<Rightarrow> (r', free w3))))"

section \<open>The command line\<close>

definition nl :: string where
  "nl = [CHR 0x0A]"

text \<open>\<open>main\<close>: \<open>argc\<close> is the length of \<open>argv\<close>. The local \<open>buf[256]\<close> of the
  \<open>read\<close> branch is never read back; its initial contents do not matter.\<close>

definition main :: "env \<Rightarrow> string list \<Rightarrow> world \<Rightarrow> int \<times> world" where
  "main E argv w =
     (if length argv \<noteq> 2
      then (1, emit (Stderr (''Usage: '' @ (case argv of [] \<Rightarrow> ''(null)'' | a # as \<Rightarrow> a)
                              @ '' dump|read'' @ nl)) w)
      else (case snx_open E zero_device 0x0C45 0x6366 0 3 w of
              (r, dev, w1) \<Rightarrow>
                if r \<noteq> 0 then (1, emit (Stderr (''Device open failed'' @ nl)) w1)
                else (let w2 =
                        (if argv ! 1 = ''dump''
                         then (case snx_dump_firmware E dev 0 0x20000 ''firmware_dump.bin'' w1 of
                                 (d, wd) \<Rightarrow>
                                   if d = 0
                                   then emit (Stdout (''Firmware dumped to firmware_dump.bin'' @ nl)) wd
                                   else emit (Stderr (''Dump failed'' @ nl)) wd)
                         else if argv ! 1 = ''read''
                         then (case snx_sf_read E dev 0 256 (replicate 256 0) w1 of
                                 (d, buf, wd) \<Rightarrow>
                                   if d = 0
                                   then emit (Stdout (''Read 256 bytes OK'' @ nl)) wd
                                   else emit (Stderr (''Read failed'' @ nl)) wd)
                         else emit (Stderr (''Unknown command'' @ nl)) w1)
                      in (0, snd (snx_close E dev w2)))))"

section \<open>Vocabulary for the properties\<close>

text \<open>The events a call added to the trace.\<close>

definition new_events :: "world \<Rightarrow> world \<Rightarrow> event list" where
  "new_events w w' = drop (length (trace w)) (trace w')"

text \<open>A Set is a control transfer of request type 0x21, a Get one of type 0xA1.\<close>

definition is_set :: "event \<Rightarrow> bool" where
  "is_set e = (case e of ControlTransfer h q rc \<Rightarrow> bmRequestType q = 0x21 | _ \<Rightarrow> False)"

definition is_get :: "event \<Rightarrow> bool" where
  "is_get e = (case e of ControlTransfer h q rc \<Rightarrow> bmRequestType q = 0xA1 | _ \<Rightarrow> False)"

text \<open>The value of a big-endian byte string.\<close>

definition be :: "byte list \<Rightarrow> nat" where
  "be bs = foldl (\<lambda>n b. 256 * n + unat b) 0 bs"

text \<open>The address windows on the wire: for each Set of the trace, the address in the
  first three bytes of its payload and the length in the bytes after them.\<close>

definition window_of :: "event \<Rightarrow> (nat \<times> nat) list" where
  "window_of e =
     (case e of
        ControlTransfer h q rc \<Rightarrow>
          if bmRequestType q = 0x21 then [(be (take 3 (payload q)), be (drop 3 (payload q)))]
          else []
      | _ \<Rightarrow> [])"

definition windows :: "event list \<Rightarrow> (nat \<times> nat) list" where
  "windows es = concat (map window_of es)"

text \<open>The number of bytes each Get of the trace asked for.\<close>

definition get_length_of :: "event \<Rightarrow> nat list" where
  "get_length_of e =
     (case e of
        ControlTransfer h q rc \<Rightarrow> if bmRequestType q = 0xA1 then [unat (wLength q)] else []
      | _ \<Rightarrow> [])"

definition get_lengths :: "event list \<Rightarrow> nat list" where
  "get_lengths es = concat (map get_length_of es)"

text \<open>The number of bytes each Get of the trace returned.\<close>

definition get_count_of :: "event \<Rightarrow> int list" where
  "get_count_of e =
     (case e of
        ControlTransfer h q rc \<Rightarrow> if bmRequestType q = 0xA1 then [rc] else []
      | _ \<Rightarrow> [])"

definition get_counts :: "event list \<Rightarrow> int list" where
  "get_counts es = concat (map get_count_of es)"

text \<open>The requests of \<open>snx_sf_read\<close> for the window at \<open>addr\<close> of \<open>chunk\<close> bytes.\<close>

definition read_set_req :: "snx_device \<Rightarrow> 32 word \<Rightarrow> 16 word \<Rightarrow> ctrl_req" where
  "read_set_req dev addr chunk =
     \<lparr>bmRequestType = 0x21, bRequest = 0x01, wValue = 0x2300,
      wIndex = push_bit 8 (ucast (xu_id dev)) OR ucast (vc_interface dev),
      payload = read_set_payload addr chunk, wLength = 5, timeout = 3000\<rparr>"

definition read_get_req :: "snx_device \<Rightarrow> 16 word \<Rightarrow> ctrl_req" where
  "read_get_req dev chunk =
     \<lparr>bmRequestType = 0xA1, bRequest = 0x81, wValue = 0x2400,
      wIndex = push_bit 8 (ucast (xu_id dev)) OR ucast (vc_interface dev),
      payload = [], wLength = chunk, timeout = 3000\<rparr>"

subsection \<open>Concrete worlds\<close>

text \<open>A world with nothing in it, an open session, and an outside where every call
  succeeds: a Set is taken whole, a Get returns as many bytes 0xFF as asked for.\<close>

definition w0 :: world where
  "w0 = \<lparr>trace = [], ctxs = {}, handles = {}, claimed = {}, files = Map.empty\<rparr>"

definition dev0 :: snx_device where
  "dev0 = \<lparr>ctx = 1, handle = 7, vc_interface = 0, xu_id = 3\<rparr>"

definition env_ok :: env where
  "env_ok =
     \<lparr>usb_init = (\<lambda>tr. (0, 0)),
      usb_open = (\<lambda>tr c vid pid. 7),
      usb_claim = (\<lambda>tr h i. 0),
      usb_release = (\<lambda>tr h i. 0),
      usb_xfer = (\<lambda>tr h q. (uint (wLength q), replicate (unat (wLength q)) 0xFF)),
      mem_alloc = (\<lambda>tr n. Some (replicate n 0)),
      file_open = (\<lambda>tr path. True),
      file_write = (\<lambda>tr n. n)\<rparr>"

text \<open>An outside where every control transfer fails with \<open>LIBUSB_ERROR_IO\<close>.\<close>

definition env_xfer_fails :: env where
  "env_xfer_fails = env_ok\<lparr>usb_xfer := (\<lambda>tr h q. (- 1, []))\<rparr>"

text \<open>An outside where every Get returns 10 bytes, whatever was asked for.\<close>

definition env_short_get :: env where
  "env_short_get =
     env_ok\<lparr>usb_xfer := (\<lambda>tr h q. if bmRequestType q = 0xA1 then (10, replicate 10 0xFF)
                                  else (uint (wLength q), []))\<rparr>"

text \<open>An outside where the interface is busy (\<open>LIBUSB_ERROR_BUSY\<close>), one where no
  matching device is plugged in, and one where the disk is full.\<close>

definition env_claim_fails :: env where
  "env_claim_fails = env_ok\<lparr>usb_claim := (\<lambda>tr h i. - 6)\<rparr>"

definition env_no_device :: env where
  "env_no_device = env_ok\<lparr>usb_open := (\<lambda>tr c vid pid. 0)\<rparr>"

definition env_disk_full :: env where
  "env_disk_full = env_ok\<lparr>file_write := (\<lambda>tr n. 0)\<rparr>"

section \<open>Facts about the machine integers of the read loop\<close>

lemma unat_ucast_16_32: "unat (ucast (c :: 16 word) :: 32 word) = unat c"
proof -
  have "uint (ucast c :: 32 word) = uint c"
    by (simp add: uint_up_ucast is_up)
  then show ?thesis
    unfolding unat_eq_nat_uint by simp
qed

lemma unat_read_chunk: "unat (read_chunk r) = min 1023 (unat r)"
proof (cases "1023 < r")
  case True
  then show ?thesis by (simp add: read_chunk_def word_less_nat_alt)
next
  case False
  then have "unat r \<le> 1023" by (simp add: word_less_nat_alt)
  then show ?thesis using False
    by (simp add: read_chunk_def unsigned_ucast_eq take_bit_nat_eq_self)
qed

lemma unat_sub_chunk: "unat (r - ucast (read_chunk r)) = unat r - min 1023 (unat r)"
proof -
  have "unat (ucast (read_chunk r) :: 32 word) = min 1023 (unat r)"
    by (simp add: unat_ucast_16_32 unat_read_chunk)
  moreover have "(ucast (read_chunk r) :: 32 word) \<le> r"
    by (simp add: word_le_nat_alt calculation)
  ultimately show ?thesis by (simp add: unat_sub)
qed

lemma chunk_decreases: "rem \<noteq> 0 \<Longrightarrow> unat (rem - ucast (read_chunk rem)) < unat rem"
  using unat_gt_0 [of rem] by (simp add: unat_sub_chunk)

section \<open>One turn of the read loop\<close>

lemma xu_set_eq:
  "snx_xu_set E (handle dev) (vc_interface dev) (xu_id dev) XU_CMD_SPI_READ_SET
      (read_set_payload addr c) 5 w =
   (fst (usb_xfer E (trace w) (handle dev) (read_set_req dev addr c)),
    emit (ControlTransfer (handle dev) (read_set_req dev addr c)
            (fst (usb_xfer E (trace w) (handle dev) (read_set_req dev addr c)))) w)"
  by (simp add: snx_xu_set_def libusb_control_transfer_def read_set_req_def
      XU_CMD_SPI_READ_SET_def read_set_payload_def Let_def split: prod.splits)

lemma xu_get_eq:
  "snx_xu_get E (handle dev) (vc_interface dev) (xu_id dev) XU_CMD_SPI_READ_GET c w =
   (fst (usb_xfer E (trace w) (handle dev) (read_get_req dev c)),
    take (unat c) (snd (usb_xfer E (trace w) (handle dev) (read_get_req dev c))),
    emit (ControlTransfer (handle dev) (read_get_req dev c)
            (fst (usb_xfer E (trace w) (handle dev) (read_get_req dev c)))) w)"
  by (simp add: snx_xu_get_def libusb_control_transfer_def read_get_req_def
      XU_CMD_SPI_READ_GET_def Let_def split: prod.splits)

lemma loop_zero: "snx_sf_read_loop E dev addr 0 p out w = (0, out, w)"
  by (simp add: snx_sf_read_loop.simps)

lemma loop_step:
  assumes "rem \<noteq> 0"
  shows "snx_sf_read_loop E dev addr rem p out w =
    (let c = read_chunk rem;
         S = read_set_req dev addr c;
         rs = fst (usb_xfer E (trace w) (handle dev) S);
         w1 = emit (ControlTransfer (handle dev) S rs) w
     in if rs < 0 then (rs, out, w1)
        else (let G = read_get_req dev c;
                  a = usb_xfer E (trace w1) (handle dev) G;
                  w2 = emit (ControlTransfer (handle dev) G (fst a)) w1;
                  out2 = store out p (take (unat c) (snd a))
              in if fst a < 0 \<or> fst a \<noteq> uint c
                 then (if fst a < 0 then fst a else - 1, out2, w2)
                 else snx_sf_read_loop E dev (addr + ucast c) (rem - ucast c)
                        (p + unat c) out2 w2))"
  by (subst snx_sf_read_loop.simps) (simp add: assms xu_set_eq xu_get_eq Let_def)

section \<open>Bytes of a word\<close>

lemma and_ff: "(x :: 'a::len word) AND 0xFF = take_bit 8 x"
proof -
  have "(0xFF :: 'a word) = mask 8" by (simp add: mask_eq_exp_minus_1)
  then show ?thesis by (simp add: take_bit_eq_mask)
qed

lemma unat_and_ff: "unat ((y :: 'a::len word) AND 0xFF) = unat y mod 256"
proof -
  have "unat (take_bit 8 y) = take_bit 8 (unat y)"
    by (simp add: unsigned_take_bit_eq)
  then show ?thesis
    unfolding and_ff by (simp add: take_bit_eq_mod)
qed

lemma unat_ucast_byte: "unat (ucast (y :: 'a::len word) :: 8 word) = unat y mod 256"
  by (simp add: unsigned_ucast_eq take_bit_eq_mod)

lemma unat_drop: "unat (drop_bit n (x :: 'a::len word)) = unat x div 2 ^ n"
proof -
  have "unat (drop_bit n x) = drop_bit n (unat x)"
    by (rule unat_drop_bit_eq)
  then show ?thesis
    by (simp add: drop_bit_eq_div)
qed

lemma byte_of_word: "unat (ucast (drop_bit n (x :: 'a::len word) AND 0xFF) :: 8 word) = unat x div 2 ^ n mod 256"
  by (simp add: unat_ucast_byte unat_and_ff unat_drop)

lemma byte0_of_word: "unat (ucast ((x :: 'a::len word) AND 0xFF) :: 8 word) = unat x mod 256"
  by (simp add: unat_ucast_byte unat_and_ff)

lemma unat_ucast_8_16: "unat (ucast (c :: 8 word) :: 16 word) = unat c"
proof -
  have "uint (ucast c :: 16 word) = uint c"
    by (simp add: uint_up_ucast is_up)
  then show ?thesis
    unfolding unat_eq_nat_uint by simp
qed

lemma windex: "unat (push_bit 8 (ucast (xu :: 8 word) :: 16 word) OR ucast (vc :: 8 word)) = 256 * unat xu + unat vc"
proof -
  have disj: "push_bit 8 (ucast xu :: 16 word) AND ucast vc = 0"
    by (rule bit_eqI) (auto simp: bit_simps dest: bit_imp_le_length)
  have bx: "unat xu < 256" and bv: "unat vc < 256"
    using unsigned_less [of xu] unsigned_less [of vc] by simp_all
  have m: "unat (ucast xu * 256 :: 16 word) = unat xu * 256"
    using bx by (simp add: unat_word_ariths unat_ucast_8_16)
  have "unat (ucast xu * 256 + ucast vc :: 16 word) = 256 * unat xu + unat vc"
    using bx bv by (simp add: unat_word_ariths(1) m unat_ucast_8_16)
  moreover have "push_bit 8 (ucast xu :: 16 word) OR ucast vc = ucast xu * 256 + ucast vc"
    using disjunctive_add_eq_or [OF disj] by (simp add: push_bit_eq_mult)
  ultimately show ?thesis by simp
qed

lemma mod_div_pow: "(n :: nat) mod 2 ^ 24 div 2 ^ k = n div 2 ^ k mod 2 ^ (24 - k)"
  using drop_bit_take_bit [of k 24 n] by (simp add: take_bit_eq_mod drop_bit_eq_div)

lemma b2: "(n :: nat) mod 16777216 div 65536 = n div 65536 mod 256"
  using mod_div_pow [of n 16] by simp

lemma b1: "(n :: nat) mod 16777216 div 256 mod 256 = n div 256 mod 256"
proof -
  have "n mod 16777216 div 256 = n div 256 mod 65536"
    using mod_div_pow [of n 8] by simp
  moreover have "m mod 65536 mod 256 = m mod 256" for m :: nat
    by (simp add: mod_mod_cancel)
  ultimately show ?thesis by simp
qed

lemma b0: "(n :: nat) mod 16777216 mod 256 = n mod 256"
  by (simp add: mod_mod_cancel)

lemma byte_eqI: "unat (b :: byte) = n mod 256 \<Longrightarrow> b = of_nat n"
  by (simp add: word_unat_eq_iff unat_of_nat)

lemma read_set_payload_bytes:
  "read_set_payload addr c =
     map of_nat [unat addr mod 2 ^ 24 div 65536, unat addr mod 2 ^ 24 div 256 mod 256, unat addr mod 2 ^ 24 mod 256,
                 unat c div 256, unat c mod 256]"
proof -
  have 1: "(ucast (drop_bit 16 addr AND 0xFF) :: byte) = of_nat (unat addr mod 2 ^ 24 div 65536)"
    by (rule byte_eqI) (simp add: byte_of_word b2)
  have 2: "(ucast (drop_bit 8 addr AND 0xFF) :: byte) = of_nat (unat addr mod 2 ^ 24 div 256 mod 256)"
    by (rule byte_eqI) (simp add: byte_of_word b1)
  have 3: "(ucast (addr AND 0xFF) :: byte) = of_nat (unat addr mod 2 ^ 24 mod 256)"
    by (rule byte_eqI) (simp add: byte0_of_word b0)
  have 4: "(ucast (drop_bit 8 c AND 0xFF) :: byte) = of_nat (unat c div 256)"
    by (rule byte_eqI) (simp add: byte_of_word)
  have 5: "(ucast (c AND 0xFF) :: byte) = of_nat (unat c mod 256)"
    by (rule byte_eqI) (simp add: byte0_of_word)
  show ?thesis
    by (simp add: read_set_payload_def 1 2 3 4 5)
qed

lemma windex_word:
  "push_bit 8 (ucast (xu :: byte) :: 16 word) OR ucast (vc :: byte) = of_nat (256 * unat xu + unat vc)"
proof -
  have "unat xu < 256" "unat vc < 256"
    using unsigned_less [of xu] unsigned_less [of vc] by simp_all
  then have "256 * unat xu + unat vc < 2 ^ LENGTH(16)"
    by simp
  then have "unat (word_of_nat (256 * unat xu + unat vc) :: 16 word) = 256 * unat xu + unat vc"
    by (simp only: unat_of_nat mod_less)
  then show ?thesis
    by (simp only: word_unat_eq_iff windex)
qed

lemma wvalue_word: "push_bit 8 (ucast (cs :: byte) :: 16 word) = of_nat (256 * unat cs)"
  using windex_word [of cs 0] by simp

section \<open>Runs of the read loop\<close>

lemma emit_twice: "emit e2 (emit e1 w) = w\<lparr>trace := trace w @ [e1, e2]\<rparr>"
  by (simp add: emit_def)

lemma new_events_extend: "new_events w (w\<lparr>trace := trace w @ tr\<rparr>) = tr"
  by (simp add: new_events_def)

lemma loop_run:
  fixes Q :: "32 word \<Rightarrow> 32 word \<Rightarrow> int \<Rightarrow> event list \<Rightarrow> bool"
  assumes zero: "\<And>addr. Q addr 0 0 []"
    and setf: "\<And>addr rem rs. rem \<noteq> 0 \<Longrightarrow> rs < 0 \<Longrightarrow>
        Q addr rem rs [ControlTransfer (handle dev) (read_set_req dev addr (read_chunk rem)) rs]"
    and getf: "\<And>addr rem rs rg. rem \<noteq> 0 \<Longrightarrow> 0 \<le> rs \<Longrightarrow> rg \<noteq> uint (read_chunk rem) \<Longrightarrow>
        Q addr rem (if rg < 0 then rg else - 1)
          [ControlTransfer (handle dev) (read_set_req dev addr (read_chunk rem)) rs,
           ControlTransfer (handle dev) (read_get_req dev (read_chunk rem)) rg]"
    and cont: "\<And>addr rem rs r tr. rem \<noteq> 0 \<Longrightarrow> 0 \<le> rs \<Longrightarrow>
        Q (addr + ucast (read_chunk rem)) (rem - ucast (read_chunk rem)) r tr \<Longrightarrow>
        Q addr rem r
          (ControlTransfer (handle dev) (read_set_req dev addr (read_chunk rem)) rs #
           ControlTransfer (handle dev) (read_get_req dev (read_chunk rem)) (uint (read_chunk rem)) # tr)"
  shows "\<exists>tr. snd (snd (snx_sf_read_loop E dev addr rem p out w)) = w\<lparr>trace := trace w @ tr\<rparr>
           \<and> Q addr rem (fst (snx_sf_read_loop E dev addr rem p out w)) tr"
proof (induction "unat rem" arbitrary: addr rem p out w rule: less_induct)
  case less
  show ?case
  proof (cases "rem = 0")
    case True
    have "w = w\<lparr>trace := trace w @ []\<rparr> \<and> Q addr 0 0 []"
      by (simp add: zero)
    then show ?thesis
      unfolding True loop_zero fst_conv snd_conv by (rule exI)
  next
    case False
    define c where "c = read_chunk rem"
    define S where "S = read_set_req dev addr c"
    define rs where "rs = fst (usb_xfer E (trace w) (handle dev) S)"
    define w1 where "w1 = emit (ControlTransfer (handle dev) S rs) w"
    define G where "G = read_get_req dev c"
    define a where "a = usb_xfer E (trace w1) (handle dev) G"
    define w2 where "w2 = emit (ControlTransfer (handle dev) G (fst a)) w1"
    define out2 where "out2 = store out p (take (unat c) (snd a))"
    note defs = c_def S_def rs_def w1_def G_def a_def w2_def out2_def
    have w2_eq: "w2 = w\<lparr>trace := trace w @
        [ControlTransfer (handle dev) S rs, ControlTransfer (handle dev) G (fst a)]\<rparr>"
      by (simp add: w2_def w1_def emit_twice)
    consider (sf) "rs < 0" | (gf) "0 \<le> rs" "fst a \<noteq> uint c" | (ok) "0 \<le> rs" "fst a = uint c"
      by linarith
    then show ?thesis
    proof cases
      case sf
      have "snx_sf_read_loop E dev addr rem p out w = (rs, out, w1)"
        using sf by (simp add: loop_step [OF False] Let_def defs)
      moreover have "w1 = w\<lparr>trace := trace w @ [ControlTransfer (handle dev) S rs]\<rparr>"
        by (simp add: w1_def emit_def)
      ultimately show ?thesis
        using setf [OF False sf, of addr] by (auto simp: S_def c_def)
    next
      case gf
      have "snx_sf_read_loop E dev addr rem p out w = (if fst a < 0 then fst a else - 1, out2, w2)"
        using gf by (simp add: loop_step [OF False] Let_def defs)
      then show ?thesis
        using getf [OF False gf(1), of "fst a" addr] gf(2) w2_eq
        by (auto simp: S_def G_def c_def)
    next
      case ok
      have eq: "snx_sf_read_loop E dev addr rem p out w =
          snx_sf_read_loop E dev (addr + ucast c) (rem - ucast c) (p + unat c) out2 w2"
        using ok by (simp add: loop_step [OF False] Let_def defs)
      have "unat (rem - ucast c) < unat rem"
        unfolding c_def by (rule chunk_decreases [OF False])
      from less [OF this, of "addr + ucast c" "p + unat c" out2 w2]
      obtain tr where tr: "snd (snd (snx_sf_read_loop E dev (addr + ucast c) (rem - ucast c)
              (p + unat c) out2 w2)) = w2\<lparr>trace := trace w2 @ tr\<rparr>"
        and Q: "Q (addr + ucast c) (rem - ucast c)
              (fst (snx_sf_read_loop E dev (addr + ucast c) (rem - ucast c) (p + unat c) out2 w2)) tr"
        by blast
      have "w2\<lparr>trace := trace w2 @ tr\<rparr> = w\<lparr>trace := trace w @
          ControlTransfer (handle dev) S rs # ControlTransfer (handle dev) G (uint c) # tr\<rparr>"
        using ok(2) by (simp add: w2_eq)
      moreover have "Q addr rem (fst (snx_sf_read_loop E dev addr rem p out w))
          (ControlTransfer (handle dev) S rs # ControlTransfer (handle dev) G (uint c) # tr)"
        using cont [OF False ok(1), of addr _ tr] Q by (simp add: eq S_def G_def c_def)
      ultimately show ?thesis
        using tr eq by auto
    qed
  qed
qed

lemma read_run:
  fixes Q :: "32 word \<Rightarrow> 32 word \<Rightarrow> int \<Rightarrow> event list \<Rightarrow> bool"
  assumes "\<And>addr. Q addr 0 0 []"
    and "\<And>addr rem rs. rem \<noteq> 0 \<Longrightarrow> rs < 0 \<Longrightarrow>
        Q addr rem rs [ControlTransfer (handle dev) (read_set_req dev addr (read_chunk rem)) rs]"
    and "\<And>addr rem rs rg. rem \<noteq> 0 \<Longrightarrow> 0 \<le> rs \<Longrightarrow> rg \<noteq> uint (read_chunk rem) \<Longrightarrow>
        Q addr rem (if rg < 0 then rg else - 1)
          [ControlTransfer (handle dev) (read_set_req dev addr (read_chunk rem)) rs,
           ControlTransfer (handle dev) (read_get_req dev (read_chunk rem)) rg]"
    and "\<And>addr rem rs r tr. rem \<noteq> 0 \<Longrightarrow> 0 \<le> rs \<Longrightarrow>
        Q (addr + ucast (read_chunk rem)) (rem - ucast (read_chunk rem)) r tr \<Longrightarrow>
        Q addr rem r
          (ControlTransfer (handle dev) (read_set_req dev addr (read_chunk rem)) rs #
           ControlTransfer (handle dev) (read_get_req dev (read_chunk rem)) (uint (read_chunk rem)) # tr)"
  shows "Q addr len (fst (snx_sf_read E dev addr len out w))
           (new_events w (snd (snd (snx_sf_read E dev addr len out w))))"
proof -
  obtain tr where "snd (snd (snx_sf_read_loop E dev addr len 0 out w)) = w\<lparr>trace := trace w @ tr\<rparr>"
    and "Q addr len (fst (snx_sf_read_loop E dev addr len 0 out w)) tr"
    using loop_run [of Q dev E addr len 0 out w, OF assms] by blast
  then show ?thesis
    by (simp add: snx_sf_read_def new_events_extend)
qed

lemma read_frame:
  "snd (snd (snx_sf_read E dev addr len out w)) =
     w\<lparr>trace := trace w @ new_events w (snd (snd (snx_sf_read E dev addr len out w)))\<rparr>"
proof -
  obtain tr where "snd (snd (snx_sf_read_loop E dev addr len 0 out w)) = w\<lparr>trace := trace w @ tr\<rparr>"
    using loop_run [of "\<lambda>a r c t. True" dev E addr len 0 out w] by blast
  then show ?thesis
    by (simp add: snx_sf_read_def new_events_extend)
qed

lemma read_set_req_literal:
  "read_set_req dev addr c =
     \<lparr>bmRequestType = 0x21, bRequest = 0x01, wValue = 0x2300,
      wIndex = of_nat (256 * unat (xu_id dev) + unat (vc_interface dev)),
      payload = map of_nat [unat addr mod 2 ^ 24 div 65536, unat addr mod 2 ^ 24 div 256 mod 256,
                            unat addr mod 2 ^ 24 mod 256, unat c div 256, unat c mod 256],
      wLength = 5, timeout = 3000\<rparr>"
  unfolding read_set_req_def read_set_payload_bytes windex_word ..

lemma read_get_req_literal:
  "read_get_req dev c =
     \<lparr>bmRequestType = 0xA1, bRequest = 0x81, wValue = 0x2400,
      wIndex = of_nat (256 * unat (xu_id dev) + unat (vc_interface dev)),
      payload = [], wLength = of_nat (unat c), timeout = 3000\<rparr>"
  unfolding read_get_req_def windex_word by simp

lemma xu_set_general:
  "snx_xu_set E h vc xu cs pl n w =
     (fst (usb_xfer E (trace w) h
             \<lparr>bmRequestType = 0x21, bRequest = 0x01, wValue = push_bit 8 (ucast cs),
              wIndex = push_bit 8 (ucast xu) OR ucast vc,
              payload = take (unat n) pl, wLength = n, timeout = 3000\<rparr>),
      emit (ControlTransfer h
             \<lparr>bmRequestType = 0x21, bRequest = 0x01, wValue = push_bit 8 (ucast cs),
              wIndex = push_bit 8 (ucast xu) OR ucast vc,
              payload = take (unat n) pl, wLength = n, timeout = 3000\<rparr>
             (fst (usb_xfer E (trace w) h
                \<lparr>bmRequestType = 0x21, bRequest = 0x01, wValue = push_bit 8 (ucast cs),
                 wIndex = push_bit 8 (ucast xu) OR ucast vc,
                 payload = take (unat n) pl, wLength = n, timeout = 3000\<rparr>))) w)"
  by (simp add: snx_xu_set_def libusb_control_transfer_def Let_def split: prod.splits)

lemma xu_get_general:
  "snx_xu_get E h vc xu cs n w =
     (fst (usb_xfer E (trace w) h
             \<lparr>bmRequestType = 0xA1, bRequest = 0x81, wValue = push_bit 8 (ucast cs),
              wIndex = push_bit 8 (ucast xu) OR ucast vc,
              payload = [], wLength = n, timeout = 3000\<rparr>),
      take (unat n) (snd (usb_xfer E (trace w) h
             \<lparr>bmRequestType = 0xA1, bRequest = 0x81, wValue = push_bit 8 (ucast cs),
              wIndex = push_bit 8 (ucast xu) OR ucast vc,
              payload = [], wLength = n, timeout = 3000\<rparr>)),
      emit (ControlTransfer h
             \<lparr>bmRequestType = 0xA1, bRequest = 0x81, wValue = push_bit 8 (ucast cs),
              wIndex = push_bit 8 (ucast xu) OR ucast vc,
              payload = [], wLength = n, timeout = 3000\<rparr>
             (fst (usb_xfer E (trace w) h
                \<lparr>bmRequestType = 0xA1, bRequest = 0x81, wValue = push_bit 8 (ucast cs),
                 wIndex = push_bit 8 (ucast xu) OR ucast vc,
                 payload = [], wLength = n, timeout = 3000\<rparr>))) w)"
  by (simp add: snx_xu_get_def libusb_control_transfer_def Let_def split: prod.splits)


section \<open>What a run leaves on the wire\<close>

lemma be3: "65536 * ((A::nat) div 65536 mod 256) + 256 * (A div 256 mod 256) + A mod 256 = A mod 16777216"
proof -
  have "A mod (65536 * 256) = 65536 * (A div 65536 mod 256) + A mod 65536"
    by (rule mod_mult2_eq)
  moreover have "A mod (256 * 256) = 256 * (A div 256 mod 256) + A mod 256"
    by (rule mod_mult2_eq)
  ultimately show ?thesis by simp
qed

lemma be2: "256 * ((C::nat) div 256 mod 256) + C mod 256 = C mod 65536"
proof -
  have "C mod (256 * 256) = 256 * (C div 256 mod 256) + C mod 256"
    by (rule mod_mult2_eq)
  then show ?thesis by simp
qed

lemma be_payload_addr: "be (take 3 (read_set_payload a c)) = unat a mod 2 ^ 24"
  using be3 [of "unat a"]
  by (simp add: read_set_payload_def be_def unat_ucast_byte unat_and_ff unat_drop)

lemma be_payload_len: "be (drop 3 (read_set_payload a c)) = unat c"
proof -
  have "unat c mod 65536 = unat c"
    using unsigned_less [of c, where ?'a = nat] by simp
  then show ?thesis
    using be2 [of "unat c"]
    by (simp add: read_set_payload_def be_def unat_ucast_byte unat_and_ff unat_drop)
qed

lemma window_of_set:
  "window_of (ControlTransfer h (read_set_req dev a c) rc) = [(unat a mod 2 ^ 24, unat c)]"
  by (simp add: window_of_def read_set_req_def be_payload_addr be_payload_len)

lemma window_of_get: "window_of (ControlTransfer h (read_get_req dev c) rc) = []"
  by (simp add: window_of_def read_get_req_def)

lemma get_length_of_set: "get_length_of (ControlTransfer h (read_set_req dev a c) rc) = []"
  by (simp add: get_length_of_def read_set_req_def)

lemma get_length_of_get: "get_length_of (ControlTransfer h (read_get_req dev c) rc) = [unat c]"
  by (simp add: get_length_of_def read_get_req_def)

lemma get_count_of_set: "get_count_of (ControlTransfer h (read_set_req dev a c) rc) = []"
  by (simp add: get_count_of_def read_set_req_def)

lemma get_count_of_get: "get_count_of (ControlTransfer h (read_get_req dev c) rc) = [rc]"
  by (simp add: get_count_of_def read_get_req_def)

lemma kind_set:
  "is_set (ControlTransfer h (read_set_req dev a c) rc)"
  "\<not> is_get (ControlTransfer h (read_set_req dev a c) rc)"
  by (simp_all add: is_set_def is_get_def read_set_req_def)

lemma kind_get:
  "is_get (ControlTransfer h (read_get_req dev c) rc)"
  "\<not> is_set (ControlTransfer h (read_get_req dev c) rc)"
  by (simp_all add: is_set_def is_get_def read_get_req_def)

lemmas obs_simps = window_of_set window_of_get get_length_of_set get_length_of_get
  get_count_of_set get_count_of_get kind_set kind_get windows_def get_lengths_def get_counts_def

text \<open>The number of chunks of a read of \<open>rem\<close> bytes is \<open>(rem + 1022) div 1023\<close>.\<close>

lemma chunks_step:
  assumes "rem \<noteq> 0"
  shows "(unat rem + 1022) div 1023 = Suc ((unat (rem - ucast (read_chunk rem)) + 1022) div 1023)"
proof -
  have pos: "0 < unat rem" using assms by (simp add: unat_gt_0)
  show ?thesis
  proof (cases "unat rem \<le> 1023")
    case True
    then have "(unat rem + 1022) div 1023 = 1"
      using pos by (simp add: div_eq_dividend_iff le_div_geq div_nat_eqI)
    then show ?thesis using True by (simp add: unat_sub_chunk)
  next
    case False
    then have "unat rem + 1022 = (unat rem - 1023 + 1022) + 1023" by simp
    then have "(unat rem + 1022) div 1023 = Suc ((unat rem - 1023 + 1022) div 1023)"
      by (metis div_add_self2 zero_neq_numeral Suc_eq_plus1)
    then show ?thesis using False by (simp add: unat_sub_chunk)
  qed
qed

lemma chunks_last: "rem \<noteq> 0 \<Longrightarrow> unat rem \<le> 1023 \<Longrightarrow> (unat (rem - ucast (read_chunk rem)) + 1022) div 1023 = 0"
  by (simp add: unat_sub_chunk)

lemma unat_next_addr:
  "unat (addr + ucast (read_chunk rem) :: 32 word) mod 2 ^ 24 = (unat addr + min 1023 (unat rem)) mod 2 ^ 24"
proof -
  have "unat (addr + ucast (read_chunk rem)) = (unat addr + min 1023 (unat rem)) mod 2 ^ 32"
    by (simp add: unat_word_ariths unat_ucast_16_32 unat_read_chunk)
  moreover have "(n mod 2 ^ 32) mod 2 ^ 24 = n mod 2 ^ 24" for n :: nat
    by (rule mod_mod_cancel) (simp add: le_imp_power_dvd)
  ultimately show ?thesis by simp
qed

lemma map_upt_Suc_shift: "map f [0..<Suc n] = f 0 # map (\<lambda>i. f (Suc i)) [0..<n]"
  by (simp only: map_upt_Suc)

text \<open>The windows on the wire, for every run.\<close>

lemma read_windows:
  "windows (new_events w (snd (snd (snx_sf_read E dev addr len out w)))) =
     map (\<lambda>i. ((unat addr + 1023 * i) mod 2 ^ 24, min 1023 (unat len - 1023 * i)))
       [0..<length (windows (new_events w (snd (snd (snx_sf_read E dev addr len out w)))))]
   \<and> length (windows (new_events w (snd (snd (snx_sf_read E dev addr len out w)))))
        \<le> (unat len + 1022) div 1023
   \<and> (fst (snx_sf_read E dev addr len out w) = 0 \<longrightarrow>
        length (windows (new_events w (snd (snd (snx_sf_read E dev addr len out w)))))
          = (unat len + 1022) div 1023)"
proof (rule read_run [where Q = "\<lambda>addr rem r tr.
     windows tr = map (\<lambda>i. ((unat addr + 1023 * i) mod 2 ^ 24, min 1023 (unat rem - 1023 * i)))
                    [0..<length (windows tr)]
   \<and> length (windows tr) \<le> (unat rem + 1022) div 1023
   \<and> (r = 0 \<longrightarrow> length (windows tr) = (unat rem + 1022) div 1023)"], goal_cases)
  case (1 addr)
  show ?case by (simp add: windows_def)
next
  case (2 addr rem rs)
  then show ?case
    by (simp add: obs_simps unat_read_chunk chunks_step)
next
  case (3 addr rem rs rg)
  then show ?case
    by (simp add: obs_simps unat_read_chunk chunks_step)
next
  case (4 addr rem rs r tr)
  let ?c = "read_chunk rem"
  let ?n = "length (windows tr)"
  have k: "(unat rem + 1022) div 1023 = Suc ((unat (rem - ucast ?c) + 1022) div 1023)"
    by (rule chunks_step) (rule 4)
  have shift: "((unat (addr + ucast ?c) + 1023 * i) mod 2 ^ 24,
                min 1023 (unat (rem - ucast ?c) - 1023 * i))
             = ((unat addr + 1023 * Suc i) mod 2 ^ 24, min 1023 (unat rem - 1023 * Suc i))"
    if "i < ?n" for i
  proof -
    have "0 < (unat (rem - ucast ?c) + 1022) div 1023"
      using that 4(3) by linarith
    then have big: "1023 < unat rem"
      using chunks_last [OF 4(1)] by (cases "unat rem \<le> 1023") simp_all
    then have a: "unat (addr + ucast ?c) mod 2 ^ 24 = (unat addr + 1023) mod 2 ^ 24"
      using unat_next_addr [of addr rem] by simp
    have "(unat (addr + ucast ?c) + 1023 * i) mod 2 ^ 24
            = (unat (addr + ucast ?c) mod 2 ^ 24 + 1023 * i) mod 2 ^ 24"
      by (simp add: mod_add_left_eq)
    also have "\<dots> = (unat addr + 1023 + 1023 * i) mod 2 ^ 24"
      unfolding a by (simp add: mod_add_left_eq)
    finally show ?thesis
      using big by (simp add: unat_sub_chunk add.assoc)
  qed
  have w: "windows (ControlTransfer (handle dev) (read_set_req dev addr ?c) rs #
                    ControlTransfer (handle dev) (read_get_req dev ?c) (uint ?c) # tr)
          = (unat addr mod 2 ^ 24, unat ?c) # windows tr"
    by (simp add: obs_simps)
  have eq: "map (\<lambda>i. ((unat (addr + ucast ?c) + 1023 * i) mod 2 ^ 24,
                      min 1023 (unat (rem - ucast ?c) - 1023 * i))) [0..<?n]
        = map (\<lambda>i. ((unat addr + 1023 * Suc i) mod 2 ^ 24,
                      min 1023 (unat rem - 1023 * Suc i))) [0..<?n]"
    by (rule map_cong [OF refl], rule shift) simp
  from 4(3) have "windows tr = map (\<lambda>i. ((unat (addr + ucast ?c) + 1023 * i) mod 2 ^ 24,
                      min 1023 (unat (rem - ucast ?c) - 1023 * i))) [0..<?n]"
    by (rule conjunct1)
  from this eq have "windows tr = map (\<lambda>i. ((unat addr + 1023 * Suc i) mod 2 ^ 24,
                                 min 1023 (unat rem - 1023 * Suc i))) [0..<?n]"
    by (rule trans)
  then have "(unat addr mod 2 ^ 24, unat ?c) # windows tr =
      map (\<lambda>i. ((unat addr + 1023 * i) mod 2 ^ 24, min 1023 (unat rem - 1023 * i))) [0..<Suc ?n]"
    unfolding map_upt_Suc_shift [of _ ?n] by (simp add: unat_read_chunk)
  then show ?case
    using 4(3) unfolding w k by simp
qed

lemma read_pairs:
  "fst (snx_sf_read E dev addr len out w) = 0 \<longrightarrow>
     map is_set (new_events w (snd (snd (snx_sf_read E dev addr len out w))))
       = concat (replicate ((unat len + 1022) div 1023) [True, False])
   \<and> map is_get (new_events w (snd (snd (snx_sf_read E dev addr len out w))))
       = concat (replicate ((unat len + 1022) div 1023) [False, True])
   \<and> get_lengths (new_events w (snd (snd (snx_sf_read E dev addr len out w))))
       = map snd (windows (new_events w (snd (snd (snx_sf_read E dev addr len out w)))))
   \<and> sum_list (map snd (windows (new_events w (snd (snd (snx_sf_read E dev addr len out w))))))
       = unat len"
proof (rule read_run [where Q = "\<lambda>addr rem r tr. r = 0 \<longrightarrow>
     map is_set tr = concat (replicate ((unat rem + 1022) div 1023) [True, False])
   \<and> map is_get tr = concat (replicate ((unat rem + 1022) div 1023) [False, True])
   \<and> get_lengths tr = map snd (windows tr)
   \<and> sum_list (map snd (windows tr)) = unat rem"], goal_cases)
  case (1 addr)
  show ?case by (simp add: windows_def get_lengths_def)
next
  case (2 addr rem rs)
  then show ?case by simp
next
  case (3 addr rem rs rg)
  then show ?case by simp
next
  case (4 addr rem rs r tr)
  have "unat (read_chunk rem) + unat (rem - ucast (read_chunk rem)) = unat rem"
    by (simp add: unat_sub_chunk unat_read_chunk)
  then show ?case
    using 4(3) by (simp add: obs_simps chunks_step [OF 4(1)])
qed



section \<open>Failing transfers\<close>

lemma req_types:
  "bmRequestType (read_set_req dev a c) = 0x21"
  "bmRequestType (read_get_req dev c) = 0xA1"
  "wLength (read_get_req dev c) = c"
  by (simp_all add: read_set_req_def read_get_req_def)

lemma split_two:
  "x # y # tr = pre @ e # post \<longleftrightarrow>
     (pre = [] \<and> e = x \<and> post = y # tr)
   \<or> (pre = [x] \<and> e = y \<and> post = tr)
   \<or> (\<exists>pre'. pre = x # y # pre' \<and> tr = pre' @ e # post)"
  by (cases pre; cases "tl pre") auto

lemma split_one_a: "[x] = pre @ e # post \<longleftrightarrow> pre = [] \<and> e = x \<and> post = []"
  by (cases pre) auto

lemma split_two_a:
  "[x, y] = pre @ e # post \<longleftrightarrow>
     (pre = [] \<and> e = x \<and> post = [y]) \<or> (pre = [x] \<and> e = y \<and> post = [])"
  by (cases pre; cases "tl pre") auto

lemma set_failure_is_last:
  "new_events w (snd (snd (snx_sf_read E dev addr len out w))) = pre @ ControlTransfer h q rc # post
     \<Longrightarrow> bmRequestType q = 0x21 \<Longrightarrow> rc < 0
     \<Longrightarrow> fst (snx_sf_read E dev addr len out w) = rc \<and> post = []"
proof -
  have "\<forall>pre h q rc post.
          new_events w (snd (snd (snx_sf_read E dev addr len out w))) = pre @ ControlTransfer h q rc # post
          \<and> bmRequestType q = 0x21 \<and> rc < 0
          \<longrightarrow> fst (snx_sf_read E dev addr len out w) = rc \<and> post = []"
  proof (rule read_run [where Q = "\<lambda>addr rem r tr. \<forall>pre h q rc post.
            tr = pre @ ControlTransfer h q rc # post \<and> bmRequestType q = 0x21 \<and> rc < 0
            \<longrightarrow> r = rc \<and> post = []"], goal_cases)
    case (1 addr)
    show ?case by simp
  next
    case (2 addr rem rs)
    show ?case by (auto simp: split_one_a)
  next
    case (3 addr rem rs rg)
    then show ?case by (auto simp: split_two_a req_types)
  next
    case (4 addr rem rs r tr)
    then show ?case by (auto simp: split_two req_types)
  qed
  then show "new_events w (snd (snd (snx_sf_read E dev addr len out w))) = pre @ ControlTransfer h q rc # post
     \<Longrightarrow> bmRequestType q = 0x21 \<Longrightarrow> rc < 0
     \<Longrightarrow> fst (snx_sf_read E dev addr len out w) = rc \<and> post = []"
    by blast
qed

lemma get_failure_is_last:
  "new_events w (snd (snd (snx_sf_read E dev addr len out w))) = pre @ ControlTransfer h q rc # post
     \<Longrightarrow> bmRequestType q = 0xA1 \<Longrightarrow> rc < 0 \<or> rc < uint (wLength q)
     \<Longrightarrow> fst (snx_sf_read E dev addr len out w) < 0
         \<and> (rc < 0 \<longrightarrow> fst (snx_sf_read E dev addr len out w) = rc) \<and> post = []"
proof -
  have "\<forall>pre h q rc post.
          new_events w (snd (snd (snx_sf_read E dev addr len out w))) = pre @ ControlTransfer h q rc # post
          \<and> bmRequestType q = 0xA1 \<and> (rc < 0 \<or> rc < uint (wLength q))
          \<longrightarrow> fst (snx_sf_read E dev addr len out w) < 0
              \<and> (rc < 0 \<longrightarrow> fst (snx_sf_read E dev addr len out w) = rc) \<and> post = []"
  proof (rule read_run [where Q = "\<lambda>addr rem r tr. \<forall>pre h q rc post.
            tr = pre @ ControlTransfer h q rc # post \<and> bmRequestType q = 0xA1
              \<and> (rc < 0 \<or> rc < uint (wLength q))
            \<longrightarrow> r < 0 \<and> (rc < 0 \<longrightarrow> r = rc) \<and> post = []"], goal_cases)
    case (1 addr)
    show ?case by simp
  next
    case (2 addr rem rs)
    show ?case by (auto simp: split_one_a req_types)
  next
    case (3 addr rem rs rg)
    then show ?case by (auto simp: split_two_a req_types)
  next
    case (4 addr rem rs r tr)
    show ?case
    proof (intro allI impI, elim conjE)
      fix pre h q rc post
      assume eq: "ControlTransfer (handle dev) (read_set_req dev addr (read_chunk rem)) rs #
            ControlTransfer (handle dev) (read_get_req dev (read_chunk rem)) (uint (read_chunk rem)) # tr
            = pre @ ControlTransfer h q rc # post"
        and ty: "bmRequestType q = 0xA1"
        and bad: "rc < 0 \<or> rc < uint (wLength q)"
      from eq consider
          (first) "q = read_set_req dev addr (read_chunk rem)"
        | (second) "q = read_get_req dev (read_chunk rem)" "rc = uint (read_chunk rem)"
        | (later) pre' where "tr = pre' @ ControlTransfer h q rc # post"
        by (auto simp: split_two)
      then show "r < 0 \<and> (rc < 0 \<longrightarrow> r = rc) \<and> post = []"
      proof cases
        case first
        then show ?thesis using ty by (simp add: req_types)
      next
        case second
        then show ?thesis using bad by (simp add: req_types)
      next
        case later
        then show ?thesis using 4(3) ty bad by blast
      qed
    qed
  qed
  then show "new_events w (snd (snd (snx_sf_read E dev addr len out w))) = pre @ ControlTransfer h q rc # post
     \<Longrightarrow> bmRequestType q = 0xA1 \<Longrightarrow> rc < 0 \<or> rc < uint (wLength q)
     \<Longrightarrow> fst (snx_sf_read E dev addr len out w) < 0
         \<and> (rc < 0 \<longrightarrow> fst (snx_sf_read E dev addr len out w) = rc) \<and> post = []"
    by blast
qed

lemma read_status:
  "fst (snx_sf_read E dev addr len out w) \<le> 0
   \<and> (fst (snx_sf_read E dev addr len out w) = 0 \<longrightarrow>
        (\<forall>e \<in> set (new_events w (snd (snd (snx_sf_read E dev addr len out w)))).
            \<exists>h q rc. e = ControlTransfer h q rc \<and> 0 \<le> rc
              \<and> (bmRequestType q = 0xA1 \<longrightarrow> rc = uint (wLength q)))
      \<and> sum_list (get_counts (new_events w (snd (snd (snx_sf_read E dev addr len out w)))))
          = uint len)"
proof (rule read_run [where Q = "\<lambda>addr rem r tr. r \<le> 0 \<and> (r = 0 \<longrightarrow>
        (\<forall>e \<in> set tr. \<exists>h q rc. e = ControlTransfer h q rc \<and> 0 \<le> rc
              \<and> (bmRequestType q = 0xA1 \<longrightarrow> rc = uint (wLength q)))
      \<and> sum_list (get_counts tr) = uint rem)"], goal_cases)
  case (1 addr)
  show ?case by (simp add: get_counts_def)
next
  case (2 addr rem rs)
  then show ?case by simp
next
  case (3 addr rem rs rg)
  then show ?case by simp
next
  case (4 addr rem rs r tr)
  have "unat (read_chunk rem) + unat (rem - ucast (read_chunk rem)) = unat rem"
    by (simp add: unat_sub_chunk unat_read_chunk)
  then have "int (unat (read_chunk rem)) + int (unat (rem - ucast (read_chunk rem))) = int (unat rem)"
    by (simp only: of_nat_add [symmetric])
  then have "uint (read_chunk rem) + uint (rem - ucast (read_chunk rem)) = uint rem"
    by (simp only: uint_nat)
  then show ?case
    using 4 by (simp add: obs_simps req_types)
qed

lemma length_get_counts: "length (get_counts tr) = length (get_lengths tr)"
  by (induction tr)
    (simp_all add: get_counts_def get_lengths_def get_count_of_def get_length_of_def
      split: event.splits)


section \<open>Addresses that agree in their low 24 bits\<close>

lemma read_set_req_cong:
  "unat a mod 2 ^ 24 = unat a' mod 2 ^ 24 \<Longrightarrow> read_set_req dev a c = read_set_req dev a' c"
  by (simp only: read_set_req_literal)

lemma next_addr_cong:
  assumes "unat a mod 2 ^ 24 = unat a' mod 2 ^ 24"
  shows "unat (a + x :: 32 word) mod 2 ^ 24 = unat (a' + x) mod 2 ^ 24"
proof -
  have red: "(n mod 2 ^ 32) mod 2 ^ 24 = n mod 2 ^ 24" for n :: nat
    by (rule mod_mod_cancel) (simp add: le_imp_power_dvd)
  have "unat (b + x) mod 2 ^ 24 = (unat b mod 2 ^ 24 + unat x) mod 2 ^ 24" for b :: "32 word"
  proof -
    have "unat (b + x) = (unat b + unat x) mod 2 ^ 32"
      by (simp add: unat_word_ariths)
    then have "unat (b + x) mod 2 ^ 24 = (unat b + unat x) mod 2 ^ 24"
      by (simp only: red)
    then show ?thesis by (simp add: mod_add_left_eq)
  qed
  then show ?thesis using assms by simp
qed

lemma loop_congruent:
  "unat a mod 2 ^ 24 = unat a' mod 2 ^ 24 \<Longrightarrow>
     snx_sf_read_loop E dev a rem p out w = snx_sf_read_loop E dev a' rem p out w"
proof (induction "unat rem" arbitrary: a a' rem p out w rule: less_induct)
  case less
  show ?case
  proof (cases "rem = 0")
    case True
    then show ?thesis by (simp add: loop_zero)
  next
    case False
    have s: "read_set_req dev a (read_chunk rem) = read_set_req dev a' (read_chunk rem)"
      using less.prems by (rule read_set_req_cong)
    have rec: "snx_sf_read_loop E dev (a + ucast (read_chunk rem)) (rem - ucast (read_chunk rem)) p' out' w'
        = snx_sf_read_loop E dev (a' + ucast (read_chunk rem)) (rem - ucast (read_chunk rem)) p' out' w'"
      for p' out' w'
      by (rule less.hyps [OF chunk_decreases [OF False] next_addr_cong [OF less.prems]])
    show ?thesis
      by (simp only: loop_step [OF False] Let_def s rec)
  qed
qed

section \<open>Opening and closing\<close>

lemmas session_defs = snx_open_def snx_close_def zero_device_def libusb_init_def
  libusb_open_device_with_vid_pid_def libusb_claim_interface_def libusb_release_interface_def
  libusb_close_def libusb_exit_def emit_def Let_def

lemma close_result:
  "fst (snx_close E dev w) = zero_device
   \<and> (handle dev \<noteq> 0 \<longrightarrow>
        handle dev \<notin> handles (snd (snx_close E dev w))
      \<and> (\<forall>i. (handle dev, i) \<notin> claimed (snd (snx_close E dev w))))
   \<and> (ctx dev \<noteq> 0 \<longrightarrow> ctx dev \<notin> ctxs (snd (snx_close E dev w)))"
  by (simp add: session_defs)

lemma open_status:
  "fst (snx_open E dev vid pid vc xu w) = 0 \<or> fst (snx_open E dev vid pid vc xu w) = - 1"
  by (simp add: session_defs split: prod.splits)

lemma open_success:
  "fst (snx_open E dev vid pid vc xu w) = 0 \<Longrightarrow>
     ctx (fst (snd (snx_open E dev vid pid vc xu w))) \<noteq> 0
   \<and> ctx (fst (snd (snx_open E dev vid pid vc xu w))) \<in> ctxs (snd (snd (snx_open E dev vid pid vc xu w)))
   \<and> handle (fst (snd (snx_open E dev vid pid vc xu w))) \<noteq> 0
   \<and> handle (fst (snd (snx_open E dev vid pid vc xu w))) \<in> handles (snd (snd (snx_open E dev vid pid vc xu w)))
   \<and> vc_interface (fst (snd (snx_open E dev vid pid vc xu w))) = vc
   \<and> xu_id (fst (snd (snx_open E dev vid pid vc xu w))) = xu
   \<and> (\<exists>rc. last (trace (snd (snd (snx_open E dev vid pid vc xu w))))
              = LibusbClaim (handle (fst (snd (snx_open E dev vid pid vc xu w)))) vc rc
           \<and> ((handle (fst (snd (snx_open E dev vid pid vc xu w))), vc)
                  \<in> claimed (snd (snd (snx_open E dev vid pid vc xu w)))
                \<longleftrightarrow> rc = 0 \<or> (handle (fst (snd (snx_open E dev vid pid vc xu w))), vc) \<in> claimed w))"
  by (auto simp: session_defs split: prod.splits if_splits)

lemma open_failure:
  "fst (snx_open E dev vid pid vc xu w) \<noteq> 0 \<Longrightarrow>
     handle (fst (snd (snx_open E dev vid pid vc xu w))) = 0
   \<and> ctxs (snd (snd (snx_open E dev vid pid vc xu w))) \<subseteq> ctxs w
   \<and> handles (snd (snd (snx_open E dev vid pid vc xu w))) = handles w
   \<and> claimed (snd (snd (snx_open E dev vid pid vc xu w))) = claimed w"
  by (auto simp: session_defs split: prod.splits if_splits)

section \<open>The frames of a run, one by one\<close>

lemma plan_shift:
  fixes addr rem :: "32 word"
  assumes nz: "rem \<noteq> 0"
    and more: "0 < (unat (rem - ucast (read_chunk rem)) + 1022) div 1023"
  shows "(unat (addr + ucast (read_chunk rem)) + 1023 * i) mod 2 ^ 24
           = (unat addr + 1023 * Suc i) mod 2 ^ 24"
    and "min 1023 (unat (rem - ucast (read_chunk rem)) - 1023 * i)
           = min 1023 (unat rem - 1023 * Suc i)"
proof -
  have big: "1023 < unat rem"
    using more chunks_last [OF nz] by (cases "unat rem \<le> 1023") simp_all
  then have a: "unat (addr + ucast (read_chunk rem)) mod 2 ^ 24 = (unat addr + 1023) mod 2 ^ 24"
    using unat_next_addr [of addr rem] by simp
  have "(unat (addr + ucast (read_chunk rem)) + 1023 * i) mod 2 ^ 24
          = (unat (addr + ucast (read_chunk rem)) mod 2 ^ 24 + 1023 * i) mod 2 ^ 24"
    by (simp add: mod_add_left_eq)
  also have "\<dots> = (unat addr + 1023 + 1023 * i) mod 2 ^ 24"
    unfolding a by (simp add: mod_add_left_eq)
  finally show "(unat (addr + ucast (read_chunk rem)) + 1023 * i) mod 2 ^ 24
           = (unat addr + 1023 * Suc i) mod 2 ^ 24"
    by (simp add: add.assoc)
  show "min 1023 (unat (rem - ucast (read_chunk rem)) - 1023 * i)
           = min 1023 (unat rem - 1023 * Suc i)"
    using big by (simp add: unat_sub_chunk)
qed

lemma read_frames:
  fixes SL :: "nat \<Rightarrow> nat \<Rightarrow> ctrl_req" and GL :: "nat \<Rightarrow> ctrl_req"
  assumes SL: "\<And>a c. read_set_req dev a c = SL (unat a mod 2 ^ 24) (unat c)"
    and GL: "\<And>c. read_get_req dev c = GL (unat c)"
  shows "\<forall>i.
      (2 * i < length (new_events w (snd (snd (snx_sf_read E dev addr len out w)))) \<longrightarrow>
         0 < min 1023 (unat len - 1023 * i)
       \<and> (\<exists>rc. new_events w (snd (snd (snx_sf_read E dev addr len out w))) ! (2 * i)
               = ControlTransfer (handle dev)
                   (SL ((unat addr + 1023 * i) mod 2 ^ 24) (min 1023 (unat len - 1023 * i))) rc))
    \<and> (2 * i + 1 < length (new_events w (snd (snd (snx_sf_read E dev addr len out w)))) \<longrightarrow>
         (\<exists>rc. new_events w (snd (snd (snx_sf_read E dev addr len out w))) ! (2 * i + 1)
               = ControlTransfer (handle dev) (GL (min 1023 (unat len - 1023 * i))) rc))"
proof -
  define Q where "Q addr rem (r :: int) tr \<longleftrightarrow>
      length tr \<le> 2 * ((unat rem + 1022) div 1023)
    \<and> (\<forall>i.
      (2 * i < length tr \<longrightarrow>
         0 < min 1023 (unat rem - 1023 * i)
       \<and> (\<exists>rc. tr ! (2 * i)
               = ControlTransfer (handle dev)
                   (SL ((unat addr + 1023 * i) mod 2 ^ 24) (min 1023 (unat rem - 1023 * i))) rc))
    \<and> (2 * i + 1 < length tr \<longrightarrow>
         (\<exists>rc. tr ! (2 * i + 1)
               = ControlTransfer (handle dev) (GL (min 1023 (unat rem - 1023 * i))) rc)))"
    for addr rem :: "32 word" and r tr
  have "Q addr len (fst (snx_sf_read E dev addr len out w))
          (new_events w (snd (snd (snx_sf_read E dev addr len out w))))"
  proof (rule read_run [where Q = Q], goal_cases)
    case (1 addr)
    show ?case by (simp add: Q_def)
  next
    case (2 addr rem rs)
    then have "0 < unat rem" by (simp add: unat_gt_0)
    then show ?case
      using 2 by (simp add: Q_def SL unat_read_chunk chunks_step)
  next
    case (3 addr rem rs rg)
    then have pos: "0 < unat rem" by (simp add: unat_gt_0)
    have zero: "i = 0" if "2 * i < Suc (Suc 0)" for i :: nat
      using that by simp
    show ?case
      unfolding Q_def
    proof (intro conjI allI impI)
      show "length [ControlTransfer (handle dev) (read_set_req dev addr (read_chunk rem)) rs,
                    ControlTransfer (handle dev) (read_get_req dev (read_chunk rem)) rg]
              \<le> 2 * ((unat rem + 1022) div 1023)"
        using 3(1) by (simp add: chunks_step)
    next
      fix i
      assume "2 * i < length [ControlTransfer (handle dev) (read_set_req dev addr (read_chunk rem)) rs,
                    ControlTransfer (handle dev) (read_get_req dev (read_chunk rem)) rg]"
      then have i: "i = 0" using zero by simp
      show "0 < min 1023 (unat rem - 1023 * i)"
        using pos i by simp
      show "\<exists>rc. [ControlTransfer (handle dev) (read_set_req dev addr (read_chunk rem)) rs,
                  ControlTransfer (handle dev) (read_get_req dev (read_chunk rem)) rg] ! (2 * i)
               = ControlTransfer (handle dev)
                   (SL ((unat addr + 1023 * i) mod 2 ^ 24) (min 1023 (unat rem - 1023 * i))) rc"
        unfolding i by (simp add: SL unat_read_chunk)
    next
      fix i
      assume "2 * i + 1 < length [ControlTransfer (handle dev) (read_set_req dev addr (read_chunk rem)) rs,
                    ControlTransfer (handle dev) (read_get_req dev (read_chunk rem)) rg]"
      then have i: "i = 0" by simp
      show "\<exists>rc. [ControlTransfer (handle dev) (read_set_req dev addr (read_chunk rem)) rs,
                  ControlTransfer (handle dev) (read_get_req dev (read_chunk rem)) rg] ! (2 * i + 1)
               = ControlTransfer (handle dev) (GL (min 1023 (unat rem - 1023 * i))) rc"
        unfolding i by (simp add: GL unat_read_chunk)
    qed
  next
    case (4 addr rem rs r tr)
    let ?c = "read_chunk rem"
    let ?S = "ControlTransfer (handle dev) (read_set_req dev addr ?c) rs"
    let ?G = "ControlTransfer (handle dev) (read_get_req dev ?c) (uint ?c)"
    have pos: "0 < unat rem" using 4(1) by (simp add: unat_gt_0)
    have IH: "length tr \<le> 2 * ((unat (rem - ucast ?c) + 1022) div 1023)"
      and IHs: "\<And>i. 2 * i < length tr \<Longrightarrow>
         0 < min 1023 (unat (rem - ucast ?c) - 1023 * i)
       \<and> (\<exists>rc. tr ! (2 * i)
               = ControlTransfer (handle dev)
                   (SL ((unat (addr + ucast ?c) + 1023 * i) mod 2 ^ 24)
                       (min 1023 (unat (rem - ucast ?c) - 1023 * i))) rc)"
      and IHg: "\<And>i. 2 * i + 1 < length tr \<Longrightarrow>
         (\<exists>rc. tr ! (2 * i + 1)
               = ControlTransfer (handle dev) (GL (min 1023 (unat (rem - ucast ?c) - 1023 * i))) rc)"
      using 4(3) unfolding Q_def by blast+
    have len: "length (?S # ?G # tr) \<le> 2 * ((unat rem + 1022) div 1023)"
      using IH by (simp add: chunks_step [OF 4(1)])
    have sets: "0 < min 1023 (unat rem - 1023 * i)
       \<and> (\<exists>rc. (?S # ?G # tr) ! (2 * i)
               = ControlTransfer (handle dev)
                   (SL ((unat addr + 1023 * i) mod 2 ^ 24) (min 1023 (unat rem - 1023 * i))) rc)"
      if "2 * i < length (?S # ?G # tr)" for i
    proof (cases i)
      case 0
      then show ?thesis using pos by (simp add: SL unat_read_chunk)
    next
      case (Suc i')
      then have lt: "2 * i' < length tr" using that by simp
      then have more: "0 < (unat (rem - ucast ?c) + 1022) div 1023" using IH by linarith
      show ?thesis
        using IHs [OF lt] unfolding Suc plan_shift [OF 4(1) more] by simp
    qed
    have gets: "\<exists>rc. (?S # ?G # tr) ! (2 * i + 1)
               = ControlTransfer (handle dev) (GL (min 1023 (unat rem - 1023 * i))) rc"
      if "2 * i + 1 < length (?S # ?G # tr)" for i
    proof (cases i)
      case 0
      then show ?thesis by (simp add: GL unat_read_chunk)
    next
      case (Suc i')
      then have lt: "2 * i' + 1 < length tr" using that by simp
      then have more: "0 < (unat (rem - ucast ?c) + 1022) div 1023" using IH by linarith
      show ?thesis
        using IHg [OF lt] unfolding Suc plan_shift [OF 4(1) more] by simp
    qed
    show ?case
      unfolding Q_def using len sets gets by blast
  qed
  then show ?thesis
    unfolding Q_def by blast
qed

lemmas run_simps = snx_sf_read_def loop_step loop_zero Let_def dev0_def w0_def
  read_chunk_def new_events_def emit_def read_set_req_def read_get_req_def

section \<open>Reading nothing\<close>

text \<open>
  Claim C8. For every session and address, \<open>snx_sf_read\<close> called with length 0
  returns 0 at once: the trace of the world is the one it was given, so no Set and no
  Get was issued, and the output buffer is the one it was given, byte for byte.
\<close>

theorem read_zero_length: "snx_sf_read E dev addr 0 out w = (0, out, w)"
  by (simp add: snx_sf_read_def loop_zero)

section \<open>The frames on the wire\<close>

text \<open>
  Claim C2. Number the events a call of \<open>snx_sf_read\<close> adds to the trace from 0.
  Event \<open>j\<close> belongs to chunk \<open>i = j div 2\<close>, whose address on the wire is
  \<open>a = (address + 1023 * i) mod 2^24\<close> and whose length is
  \<open>c = min 1023 (length - 1023 * i)\<close>, between 1 and 1023. Every even event is the Set
  of its chunk: a control transfer on the session's handle with \<open>bmRequestType\<close> 0x21,
  \<open>bRequest\<close> 0x01, \<open>wValue\<close> 0x2300 (selector 0x23 in the upper byte), \<open>wLength\<close> 5
  and a payload of exactly five bytes, the three bytes of \<open>a\<close> and then the two bytes
  of \<open>c\<close>, both big-endian. Every odd event is the matching Get: \<open>bmRequestType\<close>
  0xA1, \<open>bRequest\<close> 0x81, \<open>wValue\<close> 0x2400 and \<open>wLength\<close> that same \<open>c\<close>. In both,
  \<open>wIndex\<close> is \<open>256 * xu_id + vc_interface\<close> and the timeout is 3000 ms, and no
  transfer asks for more than 1023 bytes. For any selector, \<open>snx_xu_set\<close> and
  \<open>snx_xu_get\<close> send one frame each, with \<open>wValue = 256 * cs\<close> and
  \<open>wIndex = 256 * xu + vc\<close>.
\<close>

theorem wire_framing:
  "(\<forall>j < length (new_events w (snd (snd (snx_sf_read E dev addr len out w)))).
      let i = j div 2;
          a = (unat addr + 1023 * i) mod 2 ^ 24;
          c = min 1023 (unat len - 1023 * i)
      in 0 < c \<and> c \<le> 1023 \<and>
         (\<exists>rc. new_events w (snd (snd (snx_sf_read E dev addr len out w))) ! j
            = ControlTransfer (handle dev)
                (if even j
                 then \<lparr>bmRequestType = 0x21, bRequest = 0x01, wValue = 0x2300,
                       wIndex = of_nat (256 * unat (xu_id dev) + unat (vc_interface dev)),
                       payload = map of_nat [a div 65536, a div 256 mod 256, a mod 256,
                                             c div 256, c mod 256],
                       wLength = 5, timeout = 3000\<rparr>
                 else \<lparr>bmRequestType = 0xA1, bRequest = 0x81, wValue = 0x2400,
                       wIndex = of_nat (256 * unat (xu_id dev) + unat (vc_interface dev)),
                       payload = [], wLength = of_nat c, timeout = 3000\<rparr>) rc))
   \<and> snd (snx_xu_set E h vc xu cs pl n w) =
        emit (ControlTransfer h
               \<lparr>bmRequestType = 0x21, bRequest = 0x01, wValue = of_nat (256 * unat cs),
                wIndex = of_nat (256 * unat xu + unat vc),
                payload = take (unat n) pl, wLength = n, timeout = 3000\<rparr>
               (fst (snx_xu_set E h vc xu cs pl n w))) w
   \<and> snd (snd (snx_xu_get E h vc xu cs n w)) =
        emit (ControlTransfer h
               \<lparr>bmRequestType = 0xA1, bRequest = 0x81, wValue = of_nat (256 * unat cs),
                wIndex = of_nat (256 * unat xu + unat vc),
                payload = [], wLength = n, timeout = 3000\<rparr>
               (fst (snx_xu_get E h vc xu cs n w))) w"
proof (intro conjI allI impI)
  fix j
  let ?tr = "new_events w (snd (snd (snx_sf_read E dev addr len out w)))"
  define SL :: "nat \<Rightarrow> nat \<Rightarrow> ctrl_req" where "SL a c =
      \<lparr>bmRequestType = 0x21, bRequest = 0x01, wValue = 0x2300,
       wIndex = of_nat (256 * unat (xu_id dev) + unat (vc_interface dev)),
       payload = map of_nat [a div 65536, a div 256 mod 256, a mod 256, c div 256, c mod 256],
       wLength = 5, timeout = 3000\<rparr>" for a c
  define GL :: "nat \<Rightarrow> ctrl_req" where "GL c =
      \<lparr>bmRequestType = 0xA1, bRequest = 0x81, wValue = 0x2400,
       wIndex = of_nat (256 * unat (xu_id dev) + unat (vc_interface dev)),
       payload = [], wLength = of_nat c, timeout = 3000\<rparr>" for c
  have S: "read_set_req dev a c = SL (unat a mod 2 ^ 24) (unat c)" for a c
    unfolding SL_def by (rule read_set_req_literal)
  have G: "read_get_req dev c = GL (unat c)" for c
    unfolding GL_def by (rule read_get_req_literal)
  note frames = read_frames [of dev SL GL w E addr len out, OF S G, rule_format, of "j div 2"]
  assume j: "j < length ?tr"
  have "0 < min 1023 (unat len - 1023 * (j div 2))
      \<and> (\<exists>rc. ?tr ! j = ControlTransfer (handle dev)
            (if even j
             then SL ((unat addr + 1023 * (j div 2)) mod 2 ^ 24) (min 1023 (unat len - 1023 * (j div 2)))
             else GL (min 1023 (unat len - 1023 * (j div 2)))) rc)"
  proof (cases "even j")
    case True
    then have e: "2 * (j div 2) = j" by simp
    show ?thesis
      using frames [THEN conjunct1] j True unfolding e by simp
  next
    case False
    then have o: "2 * (j div 2) + 1 = j" by (simp add: odd_two_times_div_two_succ)
    then have "2 * (j div 2) < length ?tr" using j by linarith
    then have "0 < min 1023 (unat len - 1023 * (j div 2))"
      using frames [THEN conjunct1] by blast
    then show ?thesis
      using frames [THEN conjunct2] j False unfolding o by simp
  qed
  then show "let i = j div 2;
          a = (unat addr + 1023 * i) mod 2 ^ 24;
          c = min 1023 (unat len - 1023 * i)
      in 0 < c \<and> c \<le> 1023 \<and>
         (\<exists>rc. ?tr ! j
            = ControlTransfer (handle dev)
                (if even j
                 then \<lparr>bmRequestType = 0x21, bRequest = 0x01, wValue = 0x2300,
                       wIndex = of_nat (256 * unat (xu_id dev) + unat (vc_interface dev)),
                       payload = map of_nat [a div 65536, a div 256 mod 256, a mod 256,
                                             c div 256, c mod 256],
                       wLength = 5, timeout = 3000\<rparr>
                 else \<lparr>bmRequestType = 0xA1, bRequest = 0x81, wValue = 0x2400,
                       wIndex = of_nat (256 * unat (xu_id dev) + unat (vc_interface dev)),
                       payload = [], wLength = of_nat c, timeout = 3000\<rparr>) rc)"
    unfolding Let_def SL_def GL_def by simp
next
  show "snd (snx_xu_set E h vc xu cs pl n w) =
        emit (ControlTransfer h
               \<lparr>bmRequestType = 0x21, bRequest = 0x01, wValue = of_nat (256 * unat cs),
                wIndex = of_nat (256 * unat xu + unat vc),
                payload = take (unat n) pl, wLength = n, timeout = 3000\<rparr>
               (fst (snx_xu_set E h vc xu cs pl n w))) w"
    unfolding xu_set_general fst_conv snd_conv
    unfolding windex_word
    unfolding wvalue_word ..
next
  show "snd (snd (snx_xu_get E h vc xu cs n w)) =
        emit (ControlTransfer h
               \<lparr>bmRequestType = 0xA1, bRequest = 0x81, wValue = of_nat (256 * unat cs),
                wIndex = of_nat (256 * unat xu + unat vc),
                payload = [], wLength = n, timeout = 3000\<rparr>
               (fst (snx_xu_get E h vc xu cs n w))) w"
    unfolding xu_get_general fst_conv snd_conv
    unfolding windex_word
    unfolding wvalue_word ..
qed

theorem wire_framing_witness:
  "2 < length (new_events w0 (snd (snd (snx_sf_read env_ok dev0 0x123456 2500 (replicate 2500 0) w0))))
   \<and> 5 < length (new_events w0 (snd (snd (snx_sf_read env_ok dev0 0x123456 2500 (replicate 2500 0) w0))))
   \<and> (\<exists>rc. new_events w0 (snd (snd (snx_sf_read env_ok dev0 0x123456 2500 (replicate 2500 0) w0))) ! 2
         = ControlTransfer 7
             \<lparr>bmRequestType = 0x21, bRequest = 0x01, wValue = 0x2300, wIndex = 0x0300,
              payload = [0x12, 0x38, 0x55, 0x03, 0xFF], wLength = 5, timeout = 3000\<rparr> rc)
   \<and> (\<exists>rc. new_events w0 (snd (snd (snx_sf_read env_ok dev0 0x123456 2500 (replicate 2500 0) w0))) ! 5
         = ControlTransfer 7
             \<lparr>bmRequestType = 0xA1, bRequest = 0x81, wValue = 0x2400, wIndex = 0x0300,
              payload = [], wLength = 454, timeout = 3000\<rparr> rc)"
proof -
  let ?tr = "new_events w0 (snd (snd (snx_sf_read env_ok dev0 0x123456 2500 (replicate 2500 0) w0)))"
  have n: "length ?tr = 6"
    by (simp add: run_simps env_ok_def)
  have l2: "2 < length ?tr" and l5: "5 < length ?tr"
    unfolding n by simp_all
  note at2 = wire_framing [where E = env_ok and dev = dev0 and addr = "0x123456" and len = 2500
      and out = "replicate 2500 0" and w = w0, THEN conjunct1, rule_format, OF l2]
  note at5 = wire_framing [where E = env_ok and dev = dev0 and addr = "0x123456" and len = 2500
      and out = "replicate 2500 0" and w = w0, THEN conjunct1, rule_format, OF l5]
  have s: "\<exists>rc. ?tr ! 2
         = ControlTransfer 7
             \<lparr>bmRequestType = 0x21, bRequest = 0x01, wValue = 0x2300, wIndex = 0x0300,
              payload = [0x12, 0x38, 0x55, 0x03, 0xFF], wLength = 5, timeout = 3000\<rparr> rc"
    using at2 by (simp add: Let_def dev0_def)
  have g: "\<exists>rc. ?tr ! 5
         = ControlTransfer 7
             \<lparr>bmRequestType = 0xA1, bRequest = 0x81, wValue = 0x2400, wIndex = 0x0300,
              payload = [], wLength = 454, timeout = 3000\<rparr> rc"
    using at5 by (simp add: Let_def dev0_def)
  from l2 l5 s g show ?thesis
    by (intro conjI)
qed

section \<open>The chunk plan\<close>




section \<open>Failure of a transfer\<close>

text \<open>
  Claim C3. Take the events a call of \<open>snx_sf_read\<close> added to the trace. If one of
  them is a Set that returned a negative value, it is the last event, so neither its
  Get nor any later chunk was issued, and the read returns that value. If one of them is
  a Get that returned a negative value or fewer bytes than it asked for, it is the last
  event and the read returns a negative value (the Get's own when that is negative).
  The read never returns a positive value, and when it returns 0 every transfer it
  issued succeeded, every Get returned exactly the bytes it asked for, there were
  \<open>ceil(length / 1023)\<close> Gets, and the bytes they returned add up to the length.
\<close>

theorem read_aborts_on_failure:
  "(\<forall>pre h q rc post.
      new_events w (snd (snd (snx_sf_read E dev addr len out w))) = pre @ ControlTransfer h q rc # post
      \<and> bmRequestType q = 0x21 \<and> rc < 0
      \<longrightarrow> fst (snx_sf_read E dev addr len out w) = rc \<and> post = [])
   \<and> (\<forall>pre h q rc post.
      new_events w (snd (snd (snx_sf_read E dev addr len out w))) = pre @ ControlTransfer h q rc # post
      \<and> bmRequestType q = 0xA1 \<and> (rc < 0 \<or> rc < uint (wLength q))
      \<longrightarrow> fst (snx_sf_read E dev addr len out w) < 0
          \<and> (rc < 0 \<longrightarrow> fst (snx_sf_read E dev addr len out w) = rc) \<and> post = [])
   \<and> fst (snx_sf_read E dev addr len out w) \<le> 0
   \<and> (fst (snx_sf_read E dev addr len out w) = 0 \<longrightarrow>
        (\<forall>e \<in> set (new_events w (snd (snd (snx_sf_read E dev addr len out w)))).
            \<exists>h q rc. e = ControlTransfer h q rc \<and> 0 \<le> rc
              \<and> (bmRequestType q = 0xA1 \<longrightarrow> rc = uint (wLength q)))
      \<and> sum_list (get_counts (new_events w (snd (snd (snx_sf_read E dev addr len out w)))))
          = uint len
      \<and> length (get_counts (new_events w (snd (snd (snx_sf_read E dev addr len out w)))))
          = (unat len + 1022) div 1023)"
proof (intro conjI allI impI)
  fix pre h q rc post
  assume "new_events w (snd (snd (snx_sf_read E dev addr len out w))) = pre @ ControlTransfer h q rc # post
      \<and> bmRequestType q = 0x21 \<and> rc < 0"
  then show "fst (snx_sf_read E dev addr len out w) = rc" "post = []"
    using set_failure_is_last [of w E dev addr len out pre h q rc post] by simp_all
next
  fix pre h q rc post
  assume *: "new_events w (snd (snd (snx_sf_read E dev addr len out w))) = pre @ ControlTransfer h q rc # post
      \<and> bmRequestType q = 0xA1 \<and> (rc < 0 \<or> rc < uint (wLength q))"
  then show "fst (snx_sf_read E dev addr len out w) < 0" "post = []"
    using get_failure_is_last [of w E dev addr len out pre h q rc post] by simp_all
  assume "rc < 0"
  then show "fst (snx_sf_read E dev addr len out w) = rc"
    using * get_failure_is_last [of w E dev addr len out pre h q rc post] by simp
next
  show "fst (snx_sf_read E dev addr len out w) \<le> 0"
    using read_status [of E dev addr len out w] by simp
next
  assume ok: "fst (snx_sf_read E dev addr len out w) = 0"
  then show "\<forall>e \<in> set (new_events w (snd (snd (snx_sf_read E dev addr len out w)))).
            \<exists>h q rc. e = ControlTransfer h q rc \<and> 0 \<le> rc
              \<and> (bmRequestType q = 0xA1 \<longrightarrow> rc = uint (wLength q))"
    using read_status [of E dev addr len out w] by simp
  show "sum_list (get_counts (new_events w (snd (snd (snx_sf_read E dev addr len out w))))) = uint len"
    using ok read_status [of E dev addr len out w] by simp
  have "length (get_lengths (new_events w (snd (snd (snx_sf_read E dev addr len out w)))))
       = length (windows (new_events w (snd (snd (snx_sf_read E dev addr len out w)))))"
    using ok read_pairs [of E dev addr len out w] by simp
  then show "length (get_counts (new_events w (snd (snd (snx_sf_read E dev addr len out w)))))
          = (unat len + 1022) div 1023"
    using ok read_windows [of w E dev addr len out] by (simp add: length_get_counts)
qed


theorem read_aborts_on_failure_witness:
  "new_events w0 (snd (snd (snx_sf_read env_xfer_fails dev0 0 2500 (replicate 2500 0) w0)))
     = [] @ ControlTransfer 7 (read_set_req dev0 0 1023) (- 1) # []
   \<and> fst (snx_sf_read env_xfer_fails dev0 0 2500 (replicate 2500 0) w0) = - 1
   \<and> new_events w0 (snd (snd (snx_sf_read env_short_get dev0 0 2500 (replicate 2500 0) w0)))
     = [ControlTransfer 7 (read_set_req dev0 0 1023) 5]
         @ ControlTransfer 7 (read_get_req dev0 1023) 10 # []
   \<and> fst (snx_sf_read env_short_get dev0 0 2500 (replicate 2500 0) w0) < 0
   \<and> fst (snx_sf_read env_ok dev0 0 2500 (replicate 2500 0) w0) = 0
   \<and> sum_list (get_counts (new_events w0 (snd (snd
         (snx_sf_read env_ok dev0 0 2500 (replicate 2500 0) w0))))) = 2500"
proof -
  have t1: "new_events w0 (snd (snd (snx_sf_read env_xfer_fails dev0 0 2500 (replicate 2500 0) w0)))
     = [] @ ControlTransfer 7 (read_set_req dev0 0 1023) (- 1) # []"
    by (simp add: run_simps env_ok_def env_xfer_fails_def)
  have t2: "new_events w0 (snd (snd (snx_sf_read env_short_get dev0 0 2500 (replicate 2500 0) w0)))
     = [ControlTransfer 7 (read_set_req dev0 0 1023) 5]
         @ ControlTransfer 7 (read_get_req dev0 1023) 10 # []"
    by (simp add: run_simps env_ok_def env_short_get_def)
  have ok: "fst (snx_sf_read env_ok dev0 0 2500 (replicate 2500 0) w0) = 0"
    by (simp add: run_simps env_ok_def)
  note thm1 = read_aborts_on_failure [of w0 env_xfer_fails dev0 0 2500 "replicate 2500 0"]
  note thm2 = read_aborts_on_failure [of w0 env_short_get dev0 0 2500 "replicate 2500 0"]
  note thm3 = read_aborts_on_failure [of w0 env_ok dev0 0 2500 "replicate 2500 0"]
  have r1: "fst (snx_sf_read env_xfer_fails dev0 0 2500 (replicate 2500 0) w0) = - 1"
    using thm1 [THEN conjunct1, rule_format, of "[]" 7 "read_set_req dev0 0 1023" "- 1" "[]"] t1
    by (simp add: req_types)
  have r2: "fst (snx_sf_read env_short_get dev0 0 2500 (replicate 2500 0) w0) < 0"
    using thm2 [THEN conjunct2, THEN conjunct1, rule_format,
        of "[ControlTransfer 7 (read_set_req dev0 0 1023) 5]" 7 "read_get_req dev0 1023" 10 "[]"] t2
    by (simp add: req_types)
  have r3: "sum_list (get_counts (new_events w0 (snd (snd
         (snx_sf_read env_ok dev0 0 2500 (replicate 2500 0) w0))))) = 2500"
    using thm3 [THEN conjunct2, THEN conjunct2, THEN conjunct2] ok by simp
  from t1 r1 t2 r2 ok r3 show ?thesis
    by (intro conjI)
qed

section \<open>Addresses beyond 24 bits\<close>

text \<open>
  Claim C10. Whatever the starting address, the address on the wire of the \<open>i\<close>-th
  Set of a read is the running address \<open>address + 1023 * i\<close> reduced modulo \<open>2^24\<close>:
  the three address bytes of the payload are the bytes of the address modulo \<open>2^24\<close>,
  and nothing is rejected. Two starting addresses that are congruent modulo \<open>2^24\<close>
  give the same payloads, and the two reads are the same in every respect: result,
  buffer and trace.
\<close>

theorem address_truncation:
  "map fst (windows (new_events w (snd (snd (snx_sf_read E dev addr len out w)))))
     = map (\<lambda>i. (unat addr + 1023 * i) mod 2 ^ 24)
         [0..<length (windows (new_events w (snd (snd (snx_sf_read E dev addr len out w)))))]
   \<and> take 3 (read_set_payload addr c)
     = map of_nat [unat addr mod 2 ^ 24 div 65536, unat addr mod 2 ^ 24 div 256 mod 256,
                   unat addr mod 2 ^ 24 mod 256]
   \<and> (unat addr mod 2 ^ 24 = unat addr' mod 2 ^ 24 \<longrightarrow>
        read_set_payload addr c = read_set_payload addr' c
      \<and> snx_sf_read E dev addr len out w = snx_sf_read E dev addr' len out w)"
proof (intro conjI impI)
  let ?ws = "windows (new_events w (snd (snd (snx_sf_read E dev addr len out w))))"
  have "map fst ?ws = map fst (map (\<lambda>i. ((unat addr + 1023 * i) mod 2 ^ 24,
            min 1023 (unat len - 1023 * i))) [0..<length ?ws])"
    using read_windows [of w E dev addr len out, THEN conjunct1] by (rule arg_cong)
  then show "map fst ?ws = map (\<lambda>i. (unat addr + 1023 * i) mod 2 ^ 24) [0..<length ?ws]"
    by (simp only: map_map o_def fst_conv)
next
  show "take 3 (read_set_payload addr c)
     = map of_nat [unat addr mod 2 ^ 24 div 65536, unat addr mod 2 ^ 24 div 256 mod 256,
                   unat addr mod 2 ^ 24 mod 256]"
    unfolding read_set_payload_bytes by simp
next
  assume "unat addr mod 2 ^ 24 = unat addr' mod 2 ^ 24"
  then show "read_set_payload addr c = read_set_payload addr' c"
    by (simp only: read_set_payload_bytes)
next
  assume "unat addr mod 2 ^ 24 = unat addr' mod 2 ^ 24"
  then show "snx_sf_read E dev addr len out w = snx_sf_read E dev addr' len out w"
    unfolding snx_sf_read_def by (rule loop_congruent)
qed

theorem address_truncation_witness:
  "unat (0x1FFFC00 :: 32 word) mod 2 ^ 24 = unat (0xFFFC00 :: 32 word) mod 2 ^ 24
   \<and> read_set_payload 0x1FFFC00 1023 = read_set_payload 0xFFFC00 1023
   \<and> snx_sf_read env_ok dev0 0x1FFFC00 2500 (replicate 2500 0) w0
     = snx_sf_read env_ok dev0 0xFFFC00 2500 (replicate 2500 0) w0
   \<and> map fst (windows (new_events w0 (snd (snd
         (snx_sf_read env_ok dev0 0x1FFFC00 2500 (replicate 2500 0) w0)))))
     = [0xFFFC00, 0xFFFFFF, 0x0003FE]"
proof -
  have c: "unat (0x1FFFC00 :: 32 word) mod 2 ^ 24 = unat (0xFFFC00 :: 32 word) mod 2 ^ 24"
    by simp
  note inst = address_truncation [of w0 env_ok dev0 "0x1FFFC00" 2500 "replicate 2500 0" 1023 "0xFFFC00"]
  have eq: "read_set_payload 0x1FFFC00 1023 = read_set_payload 0xFFFC00 1023
      \<and> snx_sf_read env_ok dev0 0x1FFFC00 2500 (replicate 2500 0) w0
        = snx_sf_read env_ok dev0 0xFFFC00 2500 (replicate 2500 0) w0"
    using inst [THEN conjunct2, THEN conjunct2] c by (rule mp)
  have "windows (new_events w0 (snd (snd
         (snx_sf_read env_ok dev0 0xFFFC00 2500 (replicate 2500 0) w0))))
     = [(0xFFFC00, 1023), (0xFFFFFF, 1023), (0x0003FE, 454)]"
    by (simp add: run_simps env_ok_def windows_def window_of_def read_set_payload_def be_def)
  then have "map fst (windows (new_events w0 (snd (snd
         (snx_sf_read env_ok dev0 0x1FFFC00 2500 (replicate 2500 0) w0)))))
     = [0xFFFC00, 0xFFFFFF, 0x0003FE]"
    using eq by simp
  with c eq show ?thesis
    by (intro conjI) simp_all
qed

section \<open>The session\<close>

text \<open>
  Claim C6. \<open>snx_close\<close> on a session whose fields are all zero returns the same
  all-zero session and the very world it was given: no release, close or exit call is
  made, and nothing can fail. For any session, closing the result of a close once more
  gives the same session and the same world as the first close did.
\<close>

theorem close_idempotent:
  "snx_close E zero_device w = (zero_device, w)
   \<and> snx_close E (fst (snx_close E dev w)) (snd (snx_close E dev w)) = snx_close E dev w"
proof
  show z: "snx_close E zero_device w = (zero_device, w)" for w
    by (simp add: snx_close_def zero_device_def)
  have "fst (snx_close E dev w) = zero_device"
    by (simp add: snx_close_def Let_def)
  then show "snx_close E (fst (snx_close E dev w)) (snd (snx_close E dev w)) = snx_close E dev w"
    by (simp add: z prod_eq_iff)
qed

text \<open>
  Claim C5, as the code has it. After \<open>snx_close\<close> every field of the session is
  zero, and the handle and the context it held are no longer alive. \<open>snx_open\<close>
  returns 0 or -1. When it returns 0 the context and the device handle of the session
  are non-null and alive, the interface and unit numbers are recorded, and the last
  thing done was to ask for the interface, whatever the answer: the interface is claimed
  exactly when \<open>libusb_claim_interface\<close> returned 0 (or it was claimed before). When
  it returns -1 the device handle of the session is null and no context, handle or claim
  is alive that was not alive before the call.
\<close>

theorem session_lifecycle:
  "(case snx_close E dev w of
      (d', w') \<Rightarrow>
        d' = zero_device
      \<and> (handle dev \<noteq> 0 \<longrightarrow> handle dev \<notin> handles w' \<and> (\<forall>i. (handle dev, i) \<notin> claimed w'))
      \<and> (ctx dev \<noteq> 0 \<longrightarrow> ctx dev \<notin> ctxs w'))
   \<and> (case snx_open E dev vid pid vc xu w of
      (r, d', w') \<Rightarrow>
        (r = 0 \<or> r = - 1)
      \<and> (r = 0 \<longrightarrow>
            ctx d' \<noteq> 0 \<and> ctx d' \<in> ctxs w' \<and> handle d' \<noteq> 0 \<and> handle d' \<in> handles w'
          \<and> vc_interface d' = vc \<and> xu_id d' = xu
          \<and> (\<exists>rc. last (trace w') = LibusbClaim (handle d') vc rc
                \<and> ((handle d', vc) \<in> claimed w' \<longleftrightarrow> rc = 0 \<or> (handle d', vc) \<in> claimed w)))
      \<and> (r \<noteq> 0 \<longrightarrow>
            handle d' = 0 \<and> ctxs w' \<subseteq> ctxs w \<and> handles w' = handles w \<and> claimed w' = claimed w))"
proof (rule conjI)
  show "case snx_close E dev w of
      (d', w') \<Rightarrow>
        d' = zero_device
      \<and> (handle dev \<noteq> 0 \<longrightarrow> handle dev \<notin> handles w' \<and> (\<forall>i. (handle dev, i) \<notin> claimed w'))
      \<and> (ctx dev \<noteq> 0 \<longrightarrow> ctx dev \<notin> ctxs w')"
    using close_result [of E dev w] by (simp add: case_prod_beta)
next
  show "case snx_open E dev vid pid vc xu w of
      (r, d', w') \<Rightarrow>
        (r = 0 \<or> r = - 1)
      \<and> (r = 0 \<longrightarrow>
            ctx d' \<noteq> 0 \<and> ctx d' \<in> ctxs w' \<and> handle d' \<noteq> 0 \<and> handle d' \<in> handles w'
          \<and> vc_interface d' = vc \<and> xu_id d' = xu
          \<and> (\<exists>rc. last (trace w') = LibusbClaim (handle d') vc rc
                \<and> ((handle d', vc) \<in> claimed w' \<longleftrightarrow> rc = 0 \<or> (handle d', vc) \<in> claimed w)))
      \<and> (r \<noteq> 0 \<longrightarrow>
            handle d' = 0 \<and> ctxs w' \<subseteq> ctxs w \<and> handles w' = handles w \<and> claimed w' = claimed w)"
    unfolding case_prod_beta
    using open_status [of E dev vid pid vc xu w] open_success [of E dev vid pid vc xu w]
      open_failure [of E dev vid pid vc xu w]
    by blast
qed

theorem session_lifecycle_counterexample:
  "fst (snx_open env_claim_fails zero_device 0x0C45 0x6366 0 3 w0) = 0
   \<and> claimed (snd (snd (snx_open env_claim_fails zero_device 0x0C45 0x6366 0 3 w0))) = {}
   \<and> fst (snx_open env_no_device zero_device 0x0C45 0x6366 0 3 w0) = - 1
   \<and> fst (snd (snx_open env_no_device zero_device 0x0C45 0x6366 0 3 w0))
       = \<lparr>ctx = 1, handle = 0, vc_interface = 0, xu_id = 0\<rparr>
   \<and> ctxs (snd (snd (snx_open env_no_device zero_device 0x0C45 0x6366 0 3 w0))) = {}"
  by (simp add: session_defs env_ok_def env_claim_fails_def env_no_device_def w0_def)

theorem session_lifecycle_witness:
  "snx_open env_ok zero_device 0x0C45 0x6366 0 3 w0
     = (0, \<lparr>ctx = 1, handle = 7, vc_interface = 0, xu_id = 3\<rparr>,
        \<lparr>trace = [LibusbInit 0, LibusbOpen 1 0x0C45 0x6366 7, LibusbClaim 7 0 0],
         ctxs = {1}, handles = {7}, claimed = {(7, 0)}, files = Map.empty\<rparr>)
   \<and> (7, 0) \<in> claimed (snd (snd (snx_open env_ok zero_device 0x0C45 0x6366 0 3 w0)))
   \<and> fst (snx_open env_no_device zero_device 0x0C45 0x6366 0 3 w0) = - 1
   \<and> handle (fst (snd (snx_open env_no_device zero_device 0x0C45 0x6366 0 3 w0))) = 0
   \<and> ctxs (snd (snd (snx_open env_no_device zero_device 0x0C45 0x6366 0 3 w0))) \<subseteq> ctxs w0
   \<and> fst (snx_close env_ok dev0 (snd (snd (snx_open env_ok zero_device 0x0C45 0x6366 0 3 w0))))
       = zero_device
   \<and> 7 \<notin> handles (snd (snx_close env_ok dev0
                         (snd (snd (snx_open env_ok zero_device 0x0C45 0x6366 0 3 w0)))))"
proof -
  have o: "snx_open env_ok zero_device 0x0C45 0x6366 0 3 w0
     = (0, \<lparr>ctx = 1, handle = 7, vc_interface = 0, xu_id = 3\<rparr>,
        \<lparr>trace = [LibusbInit 0, LibusbOpen 1 0x0C45 0x6366 7, LibusbClaim 7 0 0],
         ctxs = {1}, handles = {7}, claimed = {(7, 0)}, files = Map.empty\<rparr>)"
    by (simp add: session_defs env_ok_def w0_def)
  have n: "fst (snx_open env_no_device zero_device 0x0C45 0x6366 0 3 w0) = - 1"
    by (simp add: session_defs env_ok_def env_no_device_def w0_def)
  note closing = session_lifecycle [where E = env_ok and dev = dev0
      and w = "snd (snd (snx_open env_ok zero_device 0x0C45 0x6366 0 3 w0))",
      THEN conjunct1, unfolded case_prod_beta]
  note good = session_lifecycle [where E = env_ok and dev = zero_device and w = w0
      and vid = "0x0C45" and pid = "0x6366" and vc = 0 and xu = 3,
      THEN conjunct2, unfolded case_prod_beta]
  note bad = session_lifecycle [where E = env_no_device and dev = zero_device and w = w0
      and vid = "0x0C45" and pid = "0x6366" and vc = 0 and xu = 3,
      THEN conjunct2, unfolded case_prod_beta]
  have g1: "(7, 0) \<in> claimed (snd (snd (snx_open env_ok zero_device 0x0C45 0x6366 0 3 w0)))"
    using good o by simp
  have g2: "fst (snx_close env_ok dev0 (snd (snd (snx_open env_ok zero_device 0x0C45 0x6366 0 3 w0))))
       = zero_device"
    using closing by simp
  have g3: "7 \<notin> handles (snd (snx_close env_ok dev0
                         (snd (snd (snx_open env_ok zero_device 0x0C45 0x6366 0 3 w0)))))"
    using closing by (simp add: dev0_def)
  have b: "handle (fst (snd (snx_open env_no_device zero_device 0x0C45 0x6366 0 3 w0))) = 0"
      "ctxs (snd (snd (snx_open env_no_device zero_device 0x0C45 0x6366 0 3 w0))) \<subseteq> ctxs w0"
    using bad n by simp_all
  from o g1 n b g2 g3 show ?thesis
    by (intro conjI)
qed

section \<open>The dump\<close>

lemma length_store: "length (store buf p rx) = length buf"
  by (simp add: store_def min_def)

lemma loop_length:
  "length (fst (snd (snx_sf_read_loop E dev addr rem p out w))) = length out"
proof (induction "unat rem" arbitrary: addr rem p out w rule: less_induct)
  case less
  show ?case
  proof (cases "rem = 0")
    case True
    then show ?thesis by (simp add: loop_zero)
  next
    case False
    note rec = less.hyps [OF chunk_decreases [OF False]]
    show ?thesis
      by (simp add: loop_step [OF False] Let_def rec length_store)
  qed
qed

lemma read_length: "length (fst (snd (snx_sf_read E dev addr len out w))) = length out"
  by (simp add: snx_sf_read_def loop_length)

lemma read_files: "files (snd (snd (snx_sf_read E dev addr len out w))) = files w"
  by (subst read_frame) simp

lemma read_nonpositive: "fst (snx_sf_read E dev addr len out w) \<le> 0"
  using read_status [of E dev addr len out w] by simp

lemmas dump_defs = snx_dump_firmware_def malloc_def fopen_wb_def fwrite_def fclose_def free_def

lemma dump_alloc_failure:
  "mem_alloc E (trace w) (unat len) = None \<Longrightarrow>
     snx_dump_firmware E dev addr len path w = (- 1, emit (Malloc (unat len) False) w)"
  by (simp add: dump_defs)

lemma dump_read_failure:
  assumes "mem_alloc E (trace w) (unat len) = Some bs"
    and "snx_sf_read E dev addr len (take (unat len) (bs @ replicate (unat len) 0))
           (emit (Malloc (unat len) True) w) = (r, buf, w1)"
    and "r \<noteq> 0"
  shows "snx_dump_firmware E dev addr len path w = (r, emit Free w1)"
  using assms by (simp add: dump_defs)

lemma dump_open_failure:
  assumes "mem_alloc E (trace w) (unat len) = Some bs"
    and "snx_sf_read E dev addr len (take (unat len) (bs @ replicate (unat len) 0))
           (emit (Malloc (unat len) True) w) = (0, buf, w1)"
    and "\<not> file_open E (trace w1) path"
  shows "snx_dump_firmware E dev addr len path w = (- 1, emit Free (emit (Fopen path False) w1))"
  using assms by (simp add: dump_defs)

lemma dump_written:
  assumes "mem_alloc E (trace w) (unat len) = Some bs"
    and "snx_sf_read E dev addr len (take (unat len) (bs @ replicate (unat len) 0))
           (emit (Malloc (unat len) True) w) = (0, buf, w1)"
    and "file_open E (trace w1) path"
  shows "fst (snx_dump_firmware E dev addr len path w) = 0
       \<and> trace (snd (snx_dump_firmware E dev addr len path w))
           = trace w1 @ [Fopen path True,
                         Fwrite buf (min (file_write E (trace w1 @ [Fopen path True]) (unat len)) (unat len)),
                         Fclose, Free]
       \<and> files (snd (snx_dump_firmware E dev addr len path w))
           = (files w)(path \<mapsto> take (min (file_write E (trace w1 @ [Fopen path True]) (unat len)) (unat len)) buf)
       \<and> length buf = unat len"
proof -
  have len: "length buf = unat len"
    using read_length [of E dev addr len "take (unat len) (bs @ replicate (unat len) 0)"
        "emit (Malloc (unat len) True) w"] assms(2) by simp
  have f: "files w1 = files w"
    using read_files [of E dev addr len "take (unat len) (bs @ replicate (unat len) 0)"
        "emit (Malloc (unat len) True) w"] assms(2) by (simp add: emit_def)
  show ?thesis
    using assms len f by (simp add: dump_defs emit_def Let_def)
qed

text \<open>
  Claim C7, as the code has it. \<open>snx_dump_firmware\<close> has four outcomes. When the
  buffer cannot be allocated it returns -1 and does nothing else. When the read fails it
  returns the negative status of the read, after freeing the buffer. When the read
  succeeds and the destination cannot be opened it returns -1, after freeing the
  buffer. In these three the files are untouched. When the read succeeds and the
  destination opens, it is opened (and so emptied), one write of the whole buffer of
  exactly \<open>length\<close> bytes is requested, it is closed, the buffer is freed, and 0 is
  returned, whatever number \<open>k \<le> length\<close> of bytes the write stored: the values of
  \<open>fwrite\<close> and \<open>fclose\<close> are not examined.
\<close>

theorem dump_outcomes:
  "(mem_alloc E (trace w) (unat len) = None \<longrightarrow>
      snx_dump_firmware E dev addr len path w = (- 1, emit (Malloc (unat len) False) w))
   \<and> (\<forall>bs. mem_alloc E (trace w) (unat len) = Some bs \<longrightarrow>
      (case snx_sf_read E dev addr len (take (unat len) (bs @ replicate (unat len) 0))
              (emit (Malloc (unat len) True) w) of
         (r, buf, w1) \<Rightarrow>
           length buf = unat len \<and> files w1 = files w
         \<and> (r \<noteq> 0 \<longrightarrow>
               r < 0 \<and> snx_dump_firmware E dev addr len path w = (r, emit Free w1))
         \<and> (r = 0 \<and> \<not> file_open E (trace w1) path \<longrightarrow>
               snx_dump_firmware E dev addr len path w
                 = (- 1, emit Free (emit (Fopen path False) w1)))
         \<and> (r = 0 \<and> file_open E (trace w1) path \<longrightarrow>
               (case snx_dump_firmware E dev addr len path w of
                  (d, w') \<Rightarrow>
                    d = 0
                  \<and> (\<exists>k \<le> unat len.
                        trace w' = trace w1 @ [Fopen path True, Fwrite buf k, Fclose, Free]
                      \<and> files w' = (files w)(path \<mapsto> take k buf))))))"
proof (intro conjI allI impI)
  assume "mem_alloc E (trace w) (unat len) = None"
  then show "snx_dump_firmware E dev addr len path w = (- 1, emit (Malloc (unat len) False) w)"
    by (rule dump_alloc_failure)
next
  fix bs
  assume a: "mem_alloc E (trace w) (unat len) = Some bs"
  obtain r buf w1 where rd: "snx_sf_read E dev addr len (take (unat len) (bs @ replicate (unat len) 0))
              (emit (Malloc (unat len) True) w) = (r, buf, w1)"
    by (cases "snx_sf_read E dev addr len (take (unat len) (bs @ replicate (unat len) 0))
              (emit (Malloc (unat len) True) w)") auto
  have len: "length buf = unat len"
    using read_length [of E dev addr len "take (unat len) (bs @ replicate (unat len) 0)"
        "emit (Malloc (unat len) True) w"] rd by simp
  have f: "files w1 = files w"
    using read_files [of E dev addr len "take (unat len) (bs @ replicate (unat len) 0)"
        "emit (Malloc (unat len) True) w"] rd by (simp add: emit_def)
  have neg: "r \<le> 0"
    using read_nonpositive [of E dev addr len "take (unat len) (bs @ replicate (unat len) 0)"
        "emit (Malloc (unat len) True) w"] rd by simp
  have fail: "r \<noteq> 0 \<longrightarrow> r < 0 \<and> snx_dump_firmware E dev addr len path w = (r, emit Free w1)"
    using neg dump_read_failure [OF a rd] by auto
  have nofile: "r = 0 \<and> \<not> file_open E (trace w1) path \<longrightarrow>
               snx_dump_firmware E dev addr len path w
                 = (- 1, emit Free (emit (Fopen path False) w1))"
    using dump_open_failure [OF a] rd by auto
  have written: "r = 0 \<and> file_open E (trace w1) path \<longrightarrow>
               (case snx_dump_firmware E dev addr len path w of
                  (d, w') \<Rightarrow>
                    d = 0
                  \<and> (\<exists>k \<le> unat len.
                        trace w' = trace w1 @ [Fopen path True, Fwrite buf k, Fclose, Free]
                      \<and> files w' = (files w)(path \<mapsto> take k buf)))"
  proof
    assume h: "r = 0 \<and> file_open E (trace w1) path"
    let ?k = "min (file_write E (trace w1 @ [Fopen path True]) (unat len)) (unat len)"
    have rd0: "snx_sf_read E dev addr len (take (unat len) (bs @ replicate (unat len) 0))
              (emit (Malloc (unat len) True) w) = (0, buf, w1)"
      using rd h by simp
    have "?k \<le> unat len" by simp
    then show "case snx_dump_firmware E dev addr len path w of
                  (d, w') \<Rightarrow>
                    d = 0
                  \<and> (\<exists>k \<le> unat len.
                        trace w' = trace w1 @ [Fopen path True, Fwrite buf k, Fclose, Free]
                      \<and> files w' = (files w)(path \<mapsto> take k buf))"
      unfolding case_prod_beta
      using dump_written [OF a rd0, of path] h by blast
  qed
  show "case snx_sf_read E dev addr len (take (unat len) (bs @ replicate (unat len) 0))
              (emit (Malloc (unat len) True) w) of
         (r, buf, w1) \<Rightarrow>
           length buf = unat len \<and> files w1 = files w
         \<and> (r \<noteq> 0 \<longrightarrow>
               r < 0 \<and> snx_dump_firmware E dev addr len path w = (r, emit Free w1))
         \<and> (r = 0 \<and> \<not> file_open E (trace w1) path \<longrightarrow>
               snx_dump_firmware E dev addr len path w
                 = (- 1, emit Free (emit (Fopen path False) w1)))
         \<and> (r = 0 \<and> file_open E (trace w1) path \<longrightarrow>
               (case snx_dump_firmware E dev addr len path w of
                  (d, w') \<Rightarrow>
                    d = 0
                  \<and> (\<exists>k \<le> unat len.
                        trace w' = trace w1 @ [Fopen path True, Fwrite buf k, Fclose, Free]
                      \<and> files w' = (files w)(path \<mapsto> take k buf))))"
    unfolding rd prod.case
    using len f fail nofile written by (intro conjI)
qed

theorem dump_outcomes_counterexample:
  "fst (snx_dump_firmware env_disk_full dev0 0 4 ''firmware_dump.bin'' w0) = 0
   \<and> files (snd (snx_dump_firmware env_disk_full dev0 0 4 ''firmware_dump.bin'' w0))
        ''firmware_dump.bin'' = Some []
   \<and> Fwrite (replicate 4 0xFF) 0
        \<in> set (trace (snd (snx_dump_firmware env_disk_full dev0 0 4 ''firmware_dump.bin'' w0)))"
  by (simp add: dump_defs run_simps env_ok_def env_disk_full_def store_def)


theorem dump_outcomes_witness:
  "mem_alloc env_xfer_fails (trace w0) (unat (4 :: 32 word)) = Some (replicate 4 0)
   \<and> snx_dump_firmware env_xfer_fails dev0 0 4 ''firmware_dump.bin'' w0
     = (- 1, \<lparr>trace = [Malloc 4 True, ControlTransfer 7 (read_set_req dev0 0 4) (- 1), Free],
              ctxs = {}, handles = {}, claimed = {}, files = Map.empty\<rparr>)
   \<and> mem_alloc env_ok (trace w0) (unat (4 :: 32 word)) = Some (replicate 4 0)
   \<and> fst (snx_dump_firmware env_ok dev0 0 4 ''firmware_dump.bin'' w0) = 0
   \<and> (\<exists>k \<le> 4. files (snd (snx_dump_firmware env_ok dev0 0 4 ''firmware_dump.bin'' w0))
                   = [''firmware_dump.bin'' \<mapsto> take k (replicate 4 0xFF)])"
proof -
  have a1: "mem_alloc env_xfer_fails (trace w0) (unat (4 :: 32 word)) = Some (replicate 4 0)"
    by (simp add: env_xfer_fails_def env_ok_def)
  have a2: "mem_alloc env_ok (trace w0) (unat (4 :: 32 word)) = Some (replicate 4 0)"
    by (simp add: env_ok_def)
  have r1: "snx_sf_read env_xfer_fails dev0 0 4
              (take (unat (4 :: 32 word)) (replicate 4 0 @ replicate (unat (4 :: 32 word)) 0))
              (emit (Malloc (unat (4 :: 32 word)) True) w0)
          = (- 1, replicate 4 0,
             \<lparr>trace = [Malloc 4 True, ControlTransfer 7 (read_set_req dev0 0 4) (- 1)],
              ctxs = {}, handles = {}, claimed = {}, files = Map.empty\<rparr>)"
    by (simp add: run_simps env_xfer_fails_def env_ok_def)
  have r2: "snx_sf_read env_ok dev0 0 4
              (take (unat (4 :: 32 word)) (replicate 4 0 @ replicate (unat (4 :: 32 word)) 0))
              (emit (Malloc (unat (4 :: 32 word)) True) w0)
          = (0, replicate 4 0xFF,
             \<lparr>trace = [Malloc 4 True, ControlTransfer 7 (read_set_req dev0 0 4) 5,
                       ControlTransfer 7 (read_get_req dev0 4) 4],
              ctxs = {}, handles = {}, claimed = {}, files = Map.empty\<rparr>)"
    by (simp add: run_simps env_ok_def store_def)
  have o: "file_open env_ok tr ''firmware_dump.bin''" for tr
    by (simp add: env_ok_def)
  note failing = dump_outcomes [where E = env_xfer_fails and w = w0 and len = 4 and dev = dev0
      and addr = 0 and path = "''firmware_dump.bin''", THEN conjunct2, rule_format, OF a1,
      unfolded r1 prod.case]
  note working = dump_outcomes [where E = env_ok and w = w0 and len = 4 and dev = dev0
      and addr = 0 and path = "''firmware_dump.bin''", THEN conjunct2, rule_format, OF a2,
      unfolded r2 prod.case case_prod_beta]
  have f: "snx_dump_firmware env_xfer_fails dev0 0 4 ''firmware_dump.bin'' w0
     = (- 1, \<lparr>trace = [Malloc 4 True, ControlTransfer 7 (read_set_req dev0 0 4) (- 1), Free],
              ctxs = {}, handles = {}, claimed = {}, files = Map.empty\<rparr>)"
    using failing by (simp add: emit_def)
  have g: "fst (snx_dump_firmware env_ok dev0 0 4 ''firmware_dump.bin'' w0) = 0
   \<and> (\<exists>k \<le> 4. files (snd (snx_dump_firmware env_ok dev0 0 4 ''firmware_dump.bin'' w0))
                   = [''firmware_dump.bin'' \<mapsto> take k (replicate 4 0xFF)])"
    using working o by (auto simp: w0_def)
  from a1 f a2 g show ?thesis
    by (intro conjI) simp_all
qed

section \<open>The entry point\<close>

lemma close_trace:
  "\<exists>tr. trace (snd (snx_close E dev w)) = trace w @ tr \<and> (\<forall>e \<in> set tr. \<not> is_set e \<and> \<not> is_get e \<and> (\<forall>m. e \<noteq> Stderr m))"
  by (simp add: session_defs is_set_def is_get_def)

lemma open_trace:
  "\<exists>tr. trace (snd (snd (snx_open E dev vid pid vc xu w))) = trace w @ tr \<and> (\<forall>e \<in> set tr. \<not> is_set e \<and> \<not> is_get e \<and> (\<forall>m. e \<noteq> Stderr m))"
  by (auto simp: session_defs is_set_def is_get_def split: prod.splits)

lemma main_usage:
  "length argv \<noteq> 2 \<Longrightarrow>
     main E argv w
       = (1, emit (Stderr (''Usage: '' @ (case argv of [] \<Rightarrow> ''(null)'' | a # as \<Rightarrow> a)
                             @ '' dump|read'' @ nl)) w)"
  by (simp add: main_def)

lemma main_open_failure:
  assumes "length argv = 2"
    and "snx_open E zero_device 0x0C45 0x6366 0 3 w = (r, dev, w1)" and "r \<noteq> 0"
  shows "main E argv w = (1, emit (Stderr (''Device open failed'' @ nl)) w1)"
  using assms by (simp add: main_def)

lemma main_unknown:
  assumes "length argv = 2" and "argv ! 1 \<noteq> ''dump''" and "argv ! 1 \<noteq> ''read''"
    and "snx_open E zero_device 0x0C45 0x6366 0 3 w = (0, dev, w1)"
  shows "main E argv w = (0, snd (snx_close E dev (emit (Stderr (''Unknown command'' @ nl)) w1)))"
  using assms by (simp add: main_def)

lemma main_unknown_events:
  assumes "length argv = 2" and "argv ! 1 \<noteq> ''dump''" and "argv ! 1 \<noteq> ''read''"
  shows "\<forall>e \<in> set (new_events w (snd (main E argv w))).
           \<not> is_set e \<and> \<not> is_get e \<and> (\<forall>m. e \<noteq> Stderr (''Usage: '' @ m))"
proof -
  obtain r dev w1 where o: "snx_open E zero_device 0x0C45 0x6366 0 3 w = (r, dev, w1)"
    by (cases "snx_open E zero_device 0x0C45 0x6366 0 3 w") auto
  obtain tr where tr: "trace w1 = trace w @ tr" "\<forall>e \<in> set tr. \<not> is_set e \<and> \<not> is_get e \<and> (\<forall>m. e \<noteq> Stderr m)"
    using open_trace [of E zero_device "0x0C45" "0x6366" 0 3 w] o by auto
  show ?thesis
  proof (cases "r = 0")
    case False
    have "new_events w (snd (main E argv w)) = tr @ [Stderr (''Device open failed'' @ nl)]"
      using main_open_failure [OF assms(1) o False] tr(1) by (simp add: new_events_def emit_def)
    then show ?thesis
      using tr(2) by (auto simp: is_set_def is_get_def)
  next
    case True
    obtain tr' where tr': "trace (snd (snx_close E dev (emit (Stderr (''Unknown command'' @ nl)) w1)))
        = trace (emit (Stderr (''Unknown command'' @ nl)) w1) @ tr'" "\<forall>e \<in> set tr'. \<not> is_set e \<and> \<not> is_get e \<and> (\<forall>m. e \<noteq> Stderr m)"
      using close_trace [of E dev "emit (Stderr (''Unknown command'' @ nl)) w1"] by auto
    have "new_events w (snd (main E argv w)) = tr @ [Stderr (''Unknown command'' @ nl)] @ tr'"
      using main_unknown [OF assms] o True tr(1) tr'(1) by (simp add: new_events_def emit_def)
    then show ?thesis
      using tr(2) tr'(2) by (auto simp: is_set_def is_get_def)
  qed
qed

lemma close_extends: "\<exists>tr. trace (snd (snx_close E dev w)) = trace w @ tr"
  using close_trace [of E dev w] by blast

text \<open>
  Claim C4, as the code has it. When \<open>argc\<close> is not 2, \<open>main\<close> prints the usage line
  on the standard error stream and returns 1, and that print is the only thing it does:
  no USB call is made. When the one argument is neither \<open>dump\<close> nor \<open>read\<close>, the
  device is opened first: if that fails \<open>main\<close> prints \<open>Device open failed\<close> and
  returns 1; if it succeeds \<open>main\<close> prints \<open>Unknown command\<close>, closes the session and
  returns 0. In neither case is a usage line printed or a Set or Get issued.
\<close>

theorem usage_errors:
  "(length argv \<noteq> 2 \<longrightarrow>
      main E argv w
        = (1, emit (Stderr (''Usage: '' @ (case argv of [] \<Rightarrow> ''(null)'' | a # as \<Rightarrow> a)
                              @ '' dump|read'' @ nl)) w))
   \<and> (length argv = 2 \<and> argv ! 1 \<noteq> ''dump'' \<and> argv ! 1 \<noteq> ''read'' \<longrightarrow>
        (case snx_open E zero_device 0x0C45 0x6366 0 3 w of
           (r, dev, w1) \<Rightarrow>
             (r \<noteq> 0 \<longrightarrow> main E argv w = (1, emit (Stderr (''Device open failed'' @ nl)) w1))
           \<and> (r = 0 \<longrightarrow>
                 main E argv w
                   = (0, snd (snx_close E dev (emit (Stderr (''Unknown command'' @ nl)) w1)))))
      \<and> (\<forall>e \<in> set (new_events w (snd (main E argv w))).
            \<not> is_set e \<and> \<not> is_get e \<and> (\<forall>m. e \<noteq> Stderr (''Usage: '' @ m))))"
proof (intro conjI impI)
  assume "length argv \<noteq> 2"
  then show "main E argv w
        = (1, emit (Stderr (''Usage: '' @ (case argv of [] \<Rightarrow> ''(null)'' | a # as \<Rightarrow> a)
                              @ '' dump|read'' @ nl)) w)"
    by (rule main_usage)
next
  assume h: "length argv = 2 \<and> argv ! 1 \<noteq> ''dump'' \<and> argv ! 1 \<noteq> ''read''"
  obtain r dev w1 where o: "snx_open E zero_device 0x0C45 0x6366 0 3 w = (r, dev, w1)"
    by (cases "snx_open E zero_device 0x0C45 0x6366 0 3 w") auto
  show "case snx_open E zero_device 0x0C45 0x6366 0 3 w of
           (r, dev, w1) \<Rightarrow>
             (r \<noteq> 0 \<longrightarrow> main E argv w = (1, emit (Stderr (''Device open failed'' @ nl)) w1))
           \<and> (r = 0 \<longrightarrow>
                 main E argv w
                   = (0, snd (snx_close E dev (emit (Stderr (''Unknown command'' @ nl)) w1))))"
    unfolding o prod.case
    using main_open_failure [of argv E w r dev w1] main_unknown [of argv E w dev w1] h o
    by auto
next
  assume "length argv = 2 \<and> argv ! 1 \<noteq> ''dump'' \<and> argv ! 1 \<noteq> ''read''"
  then show "\<forall>e \<in> set (new_events w (snd (main E argv w))).
            \<not> is_set e \<and> \<not> is_get e \<and> (\<forall>m. e \<noteq> Stderr (''Usage: '' @ m))"
    using main_unknown_events [of argv w E] by blast
qed

theorem usage_errors_counterexample:
  "main env_ok [''snx_flash.exe'', ''erase''] w0
     = (0, \<lparr>trace = [LibusbInit 0, LibusbOpen 1 0x0C45 0x6366 7, LibusbClaim 7 0 0,
                      Stderr (''Unknown command'' @ nl),
                      LibusbRelease 7 0 0, LibusbClose 7, LibusbExit 1],
             ctxs = {}, handles = {}, claimed = {}, files = Map.empty\<rparr>)"
  by (simp add: main_def session_defs env_ok_def w0_def)


theorem usage_errors_witness:
  "length [''snx_flash.exe''] \<noteq> 2
   \<and> main env_ok [''snx_flash.exe''] w0
     = (1, emit (Stderr (''Usage: snx_flash.exe dump|read'' @ nl)) w0)
   \<and> length [''snx_flash.exe'', ''erase''] = 2
   \<and> fst (main env_no_device [''snx_flash.exe'', ''erase''] w0) = 1
   \<and> fst (main env_ok [''snx_flash.exe'', ''erase''] w0) = 0"
proof -
  have a: "length [''snx_flash.exe''] \<noteq> 2"
    by simp
  have b: "length [''snx_flash.exe'', ''erase''] = 2
      \<and> [''snx_flash.exe'', ''erase''] ! 1 \<noteq> ''dump''
      \<and> [''snx_flash.exe'', ''erase''] ! 1 \<noteq> ''read''"
    by simp
  have o1: "snx_open env_no_device zero_device 0x0C45 0x6366 0 3 w0
      = (- 1, \<lparr>ctx = 1, handle = 0, vc_interface = 0, xu_id = 0\<rparr>,
         \<lparr>trace = [LibusbInit 0, LibusbOpen 1 0x0C45 0x6366 0, LibusbExit 1],
          ctxs = {}, handles = {}, claimed = {}, files = Map.empty\<rparr>)"
    by (simp add: session_defs env_ok_def env_no_device_def w0_def)
  have o2: "fst (snx_open env_ok zero_device 0x0C45 0x6366 0 3 w0) = 0"
    by (simp add: session_defs env_ok_def w0_def)
  have u: "main env_ok [''snx_flash.exe''] w0
     = (1, emit (Stderr (''Usage: snx_flash.exe dump|read'' @ nl)) w0)"
    using usage_errors [where E = env_ok and argv = "[''snx_flash.exe'']" and w = w0,
        THEN conjunct1] a by simp
  have f: "fst (main env_no_device [''snx_flash.exe'', ''erase''] w0) = 1"
    using usage_errors [where E = env_no_device and argv = "[''snx_flash.exe'', ''erase'']"
        and w = w0, THEN conjunct2, rule_format, OF b, THEN conjunct1, unfolded o1 prod.case]
    by simp
  have g: "fst (main env_ok [''snx_flash.exe'', ''erase''] w0) = 0"
    using usage_errors [where E = env_ok and argv = "[''snx_flash.exe'', ''erase'']"
        and w = w0, THEN conjunct2, rule_format, OF b, THEN conjunct1, unfolded case_prod_beta]
      o2
    by simp
  from a u b f g show ?thesis
    by (intro conjI) simp_all
qed

text \<open>
  Claim C9. When there is exactly one argument, it is \<open>dump\<close> or \<open>read\<close>, and
  \<open>snx_open\<close> returns 0, \<open>main\<close> returns 0 whatever the operation returned. What the
  operation returned only chooses the line printed right after it: the success line on
  the standard output when it returned 0, \<open>Dump failed\<close> or \<open>Read failed\<close> on the
  standard error stream otherwise.
\<close>

theorem exit_status_after_open:
  assumes "length argv = 2"
    and "argv ! 1 = ''dump'' \<or> argv ! 1 = ''read''"
    and "fst (snx_open E zero_device 0x0C45 0x6366 0 3 w) = 0"
  shows "fst (main E argv w) = 0
   \<and> (case snx_open E zero_device 0x0C45 0x6366 0 3 w of
        (r, dev, w1) \<Rightarrow>
          (argv ! 1 = ''dump'' \<longrightarrow>
             (case snx_dump_firmware E dev 0 0x20000 ''firmware_dump.bin'' w1 of
                (d, wd) \<Rightarrow>
                  \<exists>tr. trace (snd (main E argv w))
                         = trace wd
                             @ (if d = 0
                                then Stdout (''Firmware dumped to firmware_dump.bin'' @ nl)
                                else Stderr (''Dump failed'' @ nl)) # tr))
        \<and> (argv ! 1 = ''read'' \<longrightarrow>
             (case snx_sf_read E dev 0 256 (replicate 256 0) w1 of
                (d, buf, wd) \<Rightarrow>
                  \<exists>tr. trace (snd (main E argv w))
                         = trace wd
                             @ (if d = 0 then Stdout (''Read 256 bytes OK'' @ nl)
                                else Stderr (''Read failed'' @ nl)) # tr)))"
proof -
  obtain r dev w1 where o: "snx_open E zero_device 0x0C45 0x6366 0 3 w = (r, dev, w1)"
    by (cases "snx_open E zero_device 0x0C45 0x6366 0 3 w") auto
  have r: "r = 0" using assms(3) o by simp
  have status: "fst (main E argv w) = 0"
    using assms(1) o r by (simp add: main_def Let_def split: prod.splits)
  have dump: "case snx_dump_firmware E dev 0 0x20000 ''firmware_dump.bin'' w1 of
                (d, wd) \<Rightarrow>
                  \<exists>tr. trace (snd (main E argv w))
                         = trace wd
                             @ (if d = 0
                                then Stdout (''Firmware dumped to firmware_dump.bin'' @ nl)
                                else Stderr (''Dump failed'' @ nl)) # tr"
    if "argv ! 1 = ''dump''"
  proof -
    obtain d wd where d: "snx_dump_firmware E dev 0 0x20000 ''firmware_dump.bin'' w1 = (d, wd)"
      by (cases "snx_dump_firmware E dev 0 0x20000 ''firmware_dump.bin'' w1") auto
    let ?e = "if d = 0 then Stdout (''Firmware dumped to firmware_dump.bin'' @ nl)
              else Stderr (''Dump failed'' @ nl)"
    have "main E argv w = (0, snd (snx_close E dev (emit ?e wd)))"
      using assms(1) that o r d by (simp add: main_def)
    then show ?thesis
      unfolding d prod.case
      using close_extends [of E dev "emit ?e wd"] by (auto simp: emit_def)
  qed
  have read: "case snx_sf_read E dev 0 256 (replicate 256 0) w1 of
                (d, buf, wd) \<Rightarrow>
                  \<exists>tr. trace (snd (main E argv w))
                         = trace wd
                             @ (if d = 0 then Stdout (''Read 256 bytes OK'' @ nl)
                                else Stderr (''Read failed'' @ nl)) # tr"
    if "argv ! 1 = ''read''"
  proof -
    obtain d buf wd where d: "snx_sf_read E dev 0 256 (replicate 256 0) w1 = (d, buf, wd)"
      by (cases "snx_sf_read E dev 0 256 (replicate 256 0) w1") auto
    let ?e = "if d = 0 then Stdout (''Read 256 bytes OK'' @ nl) else Stderr (''Read failed'' @ nl)"
    have "main E argv w = (0, snd (snx_close E dev (emit ?e wd)))"
      using assms(1) that o r d by (simp add: main_def)
    then show ?thesis
      unfolding d prod.case
      using close_extends [of E dev "emit ?e wd"] by (auto simp: emit_def)
  qed
  show ?thesis
    unfolding o prod.case using status dump read by blast
qed

theorem exit_status_after_open_witness:
  "length [''snx_flash.exe'', ''read''] = 2
   \<and> fst (snx_open env_xfer_fails zero_device 0x0C45 0x6366 0 3 w0) = 0
   \<and> fst (snx_sf_read env_xfer_fails dev0 0 256 (replicate 256 0)
             (snd (snd (snx_open env_xfer_fails zero_device 0x0C45 0x6366 0 3 w0)))) = - 1
   \<and> fst (main env_xfer_fails [''snx_flash.exe'', ''read''] w0) = 0
   \<and> trace (snd (main env_xfer_fails [''snx_flash.exe'', ''read''] w0))
     = [LibusbInit 0, LibusbOpen 1 0x0C45 0x6366 7, LibusbClaim 7 0 0,
        ControlTransfer 7 (read_set_req dev0 0 256) (- 1),
        Stderr (''Read failed'' @ nl),
        LibusbRelease 7 0 0, LibusbClose 7, LibusbExit 1]
   \<and> fst (snx_dump_firmware env_xfer_fails dev0 0 0x20000 ''firmware_dump.bin''
             (snd (snd (snx_open env_xfer_fails zero_device 0x0C45 0x6366 0 3 w0)))) = - 1
   \<and> fst (main env_xfer_fails [''snx_flash.exe'', ''dump''] w0) = 0"
proof -
  have l: "length [''snx_flash.exe'', ''read''] = 2" "length [''snx_flash.exe'', ''dump''] = 2"
    by simp_all
  have c: "[''snx_flash.exe'', ''read''] ! 1 = ''dump'' \<or> [''snx_flash.exe'', ''read''] ! 1 = ''read''"
      "[''snx_flash.exe'', ''dump''] ! 1 = ''dump'' \<or> [''snx_flash.exe'', ''dump''] ! 1 = ''read''"
    by simp_all
  have o: "snx_open env_xfer_fails zero_device 0x0C45 0x6366 0 3 w0
     = (0, dev0,
        \<lparr>trace = [LibusbInit 0, LibusbOpen 1 0x0C45 0x6366 7, LibusbClaim 7 0 0],
         ctxs = {1}, handles = {7}, claimed = {(7, 0)}, files = Map.empty\<rparr>)"
    by (simp add: session_defs env_ok_def env_xfer_fails_def w0_def dev0_def)
  then have o0: "fst (snx_open env_xfer_fails zero_device 0x0C45 0x6366 0 3 w0) = 0"
    by simp
  have rd: "fst (snx_sf_read env_xfer_fails dev0 0 256 (replicate 256 0)
             (snd (snd (snx_open env_xfer_fails zero_device 0x0C45 0x6366 0 3 w0)))) = - 1"
    unfolding o by (simp add: run_simps env_ok_def env_xfer_fails_def)
  have dp: "fst (snx_dump_firmware env_xfer_fails dev0 0 0x20000 ''firmware_dump.bin''
             (snd (snd (snx_open env_xfer_fails zero_device 0x0C45 0x6366 0 3 w0)))) = - 1"
    unfolding o by (simp add: dump_defs run_simps env_ok_def env_xfer_fails_def)
  have tr: "trace (snd (main env_xfer_fails [''snx_flash.exe'', ''read''] w0))
     = [LibusbInit 0, LibusbOpen 1 0x0C45 0x6366 7, LibusbClaim 7 0 0,
        ControlTransfer 7 (read_set_req dev0 0 256) (- 1),
        Stderr (''Read failed'' @ nl),
        LibusbRelease 7 0 0, LibusbClose 7, LibusbExit 1]"
    by (simp add: main_def o run_simps session_defs env_ok_def env_xfer_fails_def)
  have m1: "fst (main env_xfer_fails [''snx_flash.exe'', ''read''] w0) = 0"
    using exit_status_after_open [OF l(1) c(1) o0] by (rule conjunct1)
  have m2: "fst (main env_xfer_fails [''snx_flash.exe'', ''dump''] w0) = 0"
    using exit_status_after_open [OF l(2) c(2) o0] by (rule conjunct1)
  from l(1) o0 rd m1 tr dp m2 show ?thesis
    by (intro conjI)
qed

end
